theory Spec2Isabelle
  imports Main "HOL-Library.Sublist" "HOL-Library.Word"
begin

section \<open>Strings\<close>

text \<open>
  A JavaScript string is a sequence of UTF-16 code units. The model keeps the code units
  U+0000 to U+00FF, one \<^typ>\<open>char\<close> each. On that range \<open>\s\<close> in a regular expression
  and \<open>String.prototype.trim\<close> agree on the white space below, and
  \<open>toLowerCase\<close> maps A-Z and the Latin-1 capitals to their small letters.
\<close>

definition isSpace :: "char \<Rightarrow> bool" where
  "isSpace c = (c \<in> set [CHR 0x09, CHR 0x0A, CHR 0x0B, CHR 0x0C, CHR 0x0D, CHR 0x20, CHR 0xA0])"

definition isDigit :: "char \<Rightarrow> bool" where
  "isDigit c = (c \<in> set ''0123456789'')"

definition isLower :: "char \<Rightarrow> bool" where
  "isLower c = (c \<in> set ''abcdefghijklmnopqrstuvwxyz'')"

definition upperUnits :: string where
  "upperUnits = ''ABCDEFGHIJKLMNOPQRSTUVWXYZ'' @
     [CHR 0xC0, CHR 0xC1, CHR 0xC2, CHR 0xC3, CHR 0xC4, CHR 0xC5, CHR 0xC6, CHR 0xC7,
      CHR 0xC8, CHR 0xC9, CHR 0xCA, CHR 0xCB, CHR 0xCC, CHR 0xCD, CHR 0xCE, CHR 0xCF,
      CHR 0xD0, CHR 0xD1, CHR 0xD2, CHR 0xD3, CHR 0xD4, CHR 0xD5, CHR 0xD6,
      CHR 0xD8, CHR 0xD9, CHR 0xDA, CHR 0xDB, CHR 0xDC, CHR 0xDD, CHR 0xDE]"

definition lowerUnits :: string where
  "lowerUnits = ''abcdefghijklmnopqrstuvwxyz'' @
     [CHR 0xE0, CHR 0xE1, CHR 0xE2, CHR 0xE3, CHR 0xE4, CHR 0xE5, CHR 0xE6, CHR 0xE7,
      CHR 0xE8, CHR 0xE9, CHR 0xEA, CHR 0xEB, CHR 0xEC, CHR 0xED, CHR 0xEE, CHR 0xEF,
      CHR 0xF0, CHR 0xF1, CHR 0xF2, CHR 0xF3, CHR 0xF4, CHR 0xF5, CHR 0xF6,
      CHR 0xF8, CHR 0xF9, CHR 0xFA, CHR 0xFB, CHR 0xFC, CHR 0xFD, CHR 0xFE]"

definition lowerChar :: "char \<Rightarrow> char" where
  "lowerChar c = (case map_of (zip upperUnits lowerUnits) c of Some d \<Rightarrow> d | None \<Rightarrow> c)"

definition toLowerCase :: "string \<Rightarrow> string" where
  "toLowerCase s = map lowerChar s"

definition trim :: "string \<Rightarrow> string" where
  "trim s = rev (dropWhile isSpace (rev (dropWhile isSpace s)))"

text \<open>\<open>s.includes(pat)\<close>: \<open>pat\<close> occurs in \<open>s\<close> as a contiguous run.\<close>

fun includesStr :: "string \<Rightarrow> string \<Rightarrow> bool" where
  "includesStr [] pat = (pat = [])"
| "includesStr (c # cs) pat = (prefix pat (c # cs) \<or> includesStr cs pat)"

text \<open>Template literals print a number in decimal.\<close>

fun showNat :: "nat \<Rightarrow> string" where
  "showNat n =
     (if n < 10 then [''0123456789'' ! n]
      else showNat (n div 10) @ [''0123456789'' ! (n mod 10)])"

section \<open>Names for folders and files\<close>

text \<open>\<open>.replace(/[^a-z0-9\s-]/g, "")\<close> keeps exactly these code units.\<close>

definition keptUnit :: "char \<Rightarrow> bool" where
  "keptUnit c = (isLower c \<or> isDigit c \<or> isSpace c \<or> c = CHR ''-'')"

text \<open>\<open>.replace(/\s+/g, "_")\<close>: every maximal run of white space becomes one underscore.\<close>

function collapseSpaces :: "string \<Rightarrow> string" where
  "collapseSpaces [] = []"
| "collapseSpaces (c # cs) =
     (if isSpace c then CHR ''_'' # collapseSpaces (dropWhile isSpace cs)
      else c # collapseSpaces cs)"
  by pat_completeness auto
termination
  by (relation "measure length") (auto simp: le_imp_less_Suc length_dropWhile_le)

text \<open>
  \<open>cleanTextForPath(text, maxLength)\<close>. The length is a count of code units, a natural
  number (the callers pass 30 and 50).
\<close>

definition cleanTextForPath :: "string \<Rightarrow> nat \<Rightarrow> string" where
  "cleanTextForPath text maxLength =
     (if text = [] \<or> length (trim text) = 0 then ''unknown''
      else take maxLength (collapseSpaces (filter keptUnit (toLowerCase text))))"

text \<open>
  The value \<open>extractTextWithFallback\<close> returns once \<open>element.textContent()\<close> has
  answered \<open>text\<close> (\<open>None\<close> is \<open>null\<close>):
  \<open>text?.trim() ? cleanTextForPath(text, maxLength) : fallbackName\<close>.
\<close>

definition textOrFallback :: "string option \<Rightarrow> string \<Rightarrow> nat \<Rightarrow> string" where
  "textOrFallback text fallbackName maxLength =
     (case text of
        None \<Rightarrow> fallbackName
      | Some t \<Rightarrow> if trim t \<noteq> [] then cleanTextForPath t maxLength else fallbackName)"

section \<open>The page, the disk and awaited calls\<close>

type_synonym buffer = "8 word list"

text \<open>
  A path is the list of its segments; \<open>path.join\<close> drops empty segments, and
  \<open>path.basename\<close> is the last one. (The segments joined here hold no separator:
  they are constants, results of \<open>cleanTextForPath\<close> or fallback names.)
\<close>

type_synonym path = "string list"

definition pathJoin :: "path \<Rightarrow> string list \<Rightarrow> path" where
  "pathJoin base segments = base @ filter (\<lambda>seg. seg \<noteq> []) segments"

definition basename :: "path \<Rightarrow> string" where
  "basename p = (if p = [] then [] else last p)"

definition PERSISTENT_CONTEXT_DIR :: path where
  "PERSISTENT_CONTEXT_DIR = [''persistent_context'']"

definition DOWNLOADS_DIR :: path where
  "DOWNLOADS_DIR = [''images'']"

text \<open>
  The menu the profile-picture frame renders: collections, their picture classes, the
  pictures of a class, the presets of a picture and the \<open>img\<close> layers a preset shows.
  Texts and attributes are what \<open>textContent\<close> and \<open>getAttribute\<close> answer
  (\<open>None\<close> is \<open>null\<close>).
\<close>

record layer =
  src :: "string option"
  style :: "string option"

record preset =
  layers :: "layer list"

record picture =
  title :: "string option"
  presets :: "preset list"

record pictureClass =
  label :: "string option"
  pictures :: "picture list"

record collection =
  heading :: "string option"
  classes :: "pictureClass list"

text \<open>
  The steps of a run, each with the position of the item it acts on (collection, class,
  picture, preset and layer ordinals, as far as they apply; for the Change button, the
  ordinal of the iframe it is looked for in). \<open>Back n\<close> is the click on
  \<open>backButtons.nth(n)\<close>; \<open>Downloaded\<close>, \<open>Filtered\<close> and \<open>Composite\<close> record a
  layer acquired by either path and an output file written.
\<close>

datatype action =
    Goto | ProfilePhoto | ChangeButton
  | CollectionName | ClassName | OpenClass
  | OpenPicture | PictureName | PresetsHeading
  | SelectPreset | NextButton | ImageContainer
  | LayerSrc | LayerStyle | Downloaded | Filtered
  | Composite | Cancel | Back nat

type_synonym step = "action \<times> nat list"

text \<open>
  What \<open>https.get\<close> does with a URL: it throws at once (a URL it cannot request),
  emits \<open>error\<close> on the request, or pipes the response body into the file stream.
  What the canvas in the page does with an image and a filter: it draws the filtered
  PNG, has no 2d context, or cannot load the image. \<open>sharp\<close> is given the base
  buffer (\<open>None\<close> for \<open>undefined\<close>), the overlays and the JPEG quality, and yields
  the encoded bytes or fails.
\<close>

datatype transfer = Threw string | ErrorEvent string | Piped buffer

datatype rendering = Rendered buffer | NoContext | LoadFailed

datatype overlay = Overlay buffer nat nat string

text \<open>
  What the search for the dialog's frame finds at an iframe of the page, before the
  Change click: \<open>contentFrame\<close> throws, it yields \<open>null\<close>, one of the three
  \<open>count\<close> calls throws, or the three counts (dialogs, Change buttons, sections).
  \<open>mkdirSync\<close> fails with a message or makes the folder.
\<close>

datatype probe = FrameThrows string | FrameNull | CountThrows string | Counts nat nat nat

record env =
  frames :: "collection list list"
  fault :: "step \<Rightarrow> string option"
  httpsGet :: "string \<Rightarrow> transfer"
  canvas :: "string \<Rightarrow> string \<Rightarrow> rendering"
  sharp :: "buffer option \<Rightarrow> overlay list \<Rightarrow> nat \<Rightarrow> string + buffer"
  dialogFrames :: "probe list"
  mkdirSync :: "path \<Rightarrow> string option"

record state =
  fs :: "path \<rightharpoonup> buffer"
  dirs :: "path set"
  trace :: "step list"

text \<open>
  An awaited call is fulfilled with a value, rejected with an error (its message), or
  never settles; it may change the state in each case.
\<close>

datatype 'a outcome = Done 'a | Raise string | Stall

definition return :: "'a \<Rightarrow> state \<Rightarrow> 'a outcome \<times> state" where
  "return a s = (Done a, s)"

definition await ::
  "(state \<Rightarrow> 'a outcome \<times> state) \<Rightarrow> ('a \<Rightarrow> state \<Rightarrow> 'b outcome \<times> state) \<Rightarrow>
   state \<Rightarrow> 'b outcome \<times> state" where
  "await m f s =
     (case m s of
        (Done a, s1) \<Rightarrow> f a s1
      | (Raise msg, s1) \<Rightarrow> (Raise msg, s1)
      | (Stall, s1) \<Rightarrow> (Stall, s1))"

definition mark :: "step \<Rightarrow> state \<Rightarrow> unit outcome \<times> state" where
  "mark st s = (Done (), s\<lparr>trace := trace s @ [st]\<rparr>)"

text \<open>A locator call (wait, click, read): it throws where the page faults, else it is recorded.\<close>

definition ui :: "env \<Rightarrow> step \<Rightarrow> state \<Rightarrow> unit outcome \<times> state" where
  "ui env st s = (case fault env st of Some msg \<Rightarrow> (Raise msg, s) | None \<Rightarrow> mark st s)"

definition textContent :: "env \<Rightarrow> step \<Rightarrow> 'a \<Rightarrow> state \<Rightarrow> 'a outcome \<times> state" where
  "textContent env st answer = await (ui env st) (\<lambda>_. return answer)"

definition getAttribute :: "env \<Rightarrow> step \<Rightarrow> 'a \<Rightarrow> state \<Rightarrow> 'a outcome \<times> state" where
  "getAttribute env st answer = await (ui env st) (\<lambda>_. return answer)"

definition existsSync :: "state \<Rightarrow> path \<Rightarrow> bool" where
  "existsSync s p = (p \<in> dirs s \<or> fs s p \<noteq> None)"

section \<open>The functions of the program\<close>

text \<open>
  The two source files (typed and untyped) agree function by function once the type
  annotations are erased, except at two places, which take the variant as a parameter:
  the guard on the canvas context in \<open>applyCSSFilterToImage\<close> and the ordinal of the
  iframe read after the Change click.
\<close>

datatype variant = Typed | Untyped

definition extractTextWithFallback ::
  "env \<Rightarrow> step \<Rightarrow> string option \<Rightarrow> string \<Rightarrow> nat \<Rightarrow> state \<Rightarrow> string outcome \<times> state" where
  "extractTextWithFallback env element shown fallbackName maxLength =
     await (textContent env element shown) (\<lambda>text.
       return (textOrFallback text fallbackName maxLength))"

text \<open>
  \<open>createFolderStructure\<close>: the folder is made, with its parents, unless the path
  exists; an exception of \<open>mkdirSync\<close> leaves the function.
\<close>

definition createFolderStructure ::
  "env \<Rightarrow> string \<Rightarrow> string \<Rightarrow> string \<Rightarrow> state \<Rightarrow> path outcome \<times> state" where
  "createFolderStructure env collectionName pictureClassName pictureName s =
     (let basePictureFolder = pathJoin DOWNLOADS_DIR [collectionName, pictureClassName, pictureName]
      in if existsSync s basePictureFolder then (Done basePictureFolder, s)
         else (case mkdirSync env basePictureFolder of
                 Some msg \<Rightarrow> (Raise msg, s)
               | None \<Rightarrow>
                   (Done basePictureFolder,
                    s\<lparr>dirs := dirs s \<union>
                      set (map (\<lambda>n. take n basePictureFolder) [1..<Suc (length basePictureFolder)])\<rparr>)))"

definition waitAndClick :: "env \<Rightarrow> step \<Rightarrow> state \<Rightarrow> unit outcome \<times> state" where
  "waitAndClick env element = ui env element"

definition goBackToPresetSelection :: "env \<Rightarrow> nat list \<Rightarrow> state \<Rightarrow> unit outcome \<times> state" where
  "goBackToPresetSelection env pos = ui env (Cancel, pos)"

definition goBackToPictureSelection :: "env \<Rightarrow> nat list \<Rightarrow> state \<Rightarrow> unit outcome \<times> state" where
  "goBackToPictureSelection env pos = ui env (Back 2, pos)"

definition goBackToPictureClassSelection :: "env \<Rightarrow> nat list \<Rightarrow> state \<Rightarrow> unit outcome \<times> state" where
  "goBackToPictureClassSelection env pos = ui env (Back 1, pos)"

text \<open>
  \<open>downloadImage\<close>: the promise's executor opens the write stream (the file exists,
  empty, from then on) and calls \<open>https.get\<close>. An exception of that call rejects the
  promise as it stands; the \<open>error\<close> listener unlinks the file and rejects; the
  stream's \<open>finish\<close> resolves with the body in the file. (The stream is taken to
  open: the folder of the file is the one \<open>createFolderStructure\<close> has returned.)
\<close>

definition downloadImage :: "env \<Rightarrow> string \<Rightarrow> path \<Rightarrow> state \<Rightarrow> unit outcome \<times> state" where
  "downloadImage env url filepath s =
     (let s1 = s\<lparr>fs := (fs s)(filepath \<mapsto> [])\<rparr> in
      case httpsGet env url of
        Threw msg \<Rightarrow> (Raise msg, s1)
      | ErrorEvent msg \<Rightarrow> (Raise msg, s1\<lparr>fs := (fs s1)(filepath := None)\<rparr>)
      | Piped body \<Rightarrow> (Done (), s1\<lparr>fs := (fs s1)(filepath \<mapsto> body)\<rparr>))"

definition readFileSync :: "path \<Rightarrow> state \<Rightarrow> buffer outcome \<times> state" where
  "readFileSync p s = (case fs s p of Some b \<Rightarrow> (Done b, s) | None \<Rightarrow> (Raise ''ENOENT'', s))"

definition unlinkSync :: "path \<Rightarrow> state \<Rightarrow> unit outcome \<times> state" where
  "unlinkSync p s =
     (case fs s p of Some b \<Rightarrow> (Done (), s\<lparr>fs := (fs s)(p := None)\<rparr>) | None \<Rightarrow> (Raise ''ENOENT'', s))"

definition tempPath :: "path \<Rightarrow> nat \<Rightarrow> path" where
  "tempPath basePictureFolder index = pathJoin basePictureFolder [''temp_'' @ showNat index @ ''.jpg'']"

definition downloadImageToBuffer ::
  "env \<Rightarrow> string \<Rightarrow> path \<Rightarrow> nat \<Rightarrow> state \<Rightarrow> buffer outcome \<times> state" where
  "downloadImageToBuffer env source basePictureFolder index =
     await (downloadImage env source (tempPath basePictureFolder index)) (\<lambda>_.
     await (readFileSync (tempPath basePictureFolder index)) (\<lambda>imageBuffer.
     await (unlinkSync (tempPath basePictureFolder index)) (\<lambda>_.
       return imageBuffer)))"

text \<open>
  \<open>applyCSSFilterToImage\<close>. Without a 2d context the typed file rejects; the untyped
  file has no such guard, its \<open>onload\<close> handler throws and the promise never settles.
  The buffer is the PNG decoded from the data URL.
\<close>

definition applyCSSFilterToImage ::
  "variant \<Rightarrow> env \<Rightarrow> string \<Rightarrow> string \<Rightarrow> state \<Rightarrow> buffer outcome \<times> state" where
  "applyCSSFilterToImage v env imageUrl cssFilter s =
     (case canvas env imageUrl cssFilter of
        Rendered png \<Rightarrow> (Done png, s)
      | NoContext \<Rightarrow> (case v of Typed \<Rightarrow> (Raise ''Could not get canvas context'', s) | Untyped \<Rightarrow> (Stall, s))
      | LoadFailed \<Rightarrow> (Raise ''Failed to load image'', s))"

definition finalPath :: "path \<Rightarrow> nat \<Rightarrow> path" where
  "finalPath outputFolder presetNumber =
     pathJoin outputFolder [basename outputFolder @ ''_'' @ showNat presetNumber @ ''.jpg'']"

definition createCompositeFromBuffers ::
  "env \<Rightarrow> path \<Rightarrow> nat \<Rightarrow> buffer list \<Rightarrow> state \<Rightarrow> unit outcome \<times> state" where
  "createCompositeFromBuffers env outputFolder presetNumber imageBuffers s =
     (if length imageBuffers = 1
      then (Done (), s\<lparr>fs := (fs s)(finalPath outputFolder presetNumber \<mapsto> hd imageBuffers)\<rparr>)
      else
        (case sharp env (case imageBuffers of [] \<Rightarrow> None | b # _ \<Rightarrow> Some b)
                (map (\<lambda>b. Overlay b 0 0 ''over'') (drop 1 imageBuffers)) 100 of
           Inl msg \<Rightarrow> (Raise msg, s)
         | Inr jpeg \<Rightarrow> (Done (), s\<lparr>fs := (fs s)(finalPath outputFolder presetNumber \<mapsto> jpeg)\<rparr>)))"

text \<open>
  \<open>style.match(/filter:\s*([^;]+)/)\<close>: \<open>filterGroup\<close> is the capture after one
  occurrence of \<open>filter:\<close> (the white space is given back one unit when nothing but a
  semicolon or the end follows it), \<open>matchFilter\<close> the capture of the leftmost
  occurrence that matches.
\<close>

definition filterGroup :: "string \<Rightarrow> string option" where
  "filterGroup rest =
     (let r = dropWhile isSpace rest in
      if r \<noteq> [] \<and> hd r \<noteq> CHR '';'' then Some (takeWhile (\<lambda>c. c \<noteq> CHR '';'') r)
      else if takeWhile isSpace rest \<noteq> [] then Some [last (takeWhile isSpace rest)]
      else None)"

fun matchFilter :: "string \<Rightarrow> string option" where
  "matchFilter [] = None"
| "matchFilter (c # cs) =
     (if prefix ''filter:'' (c # cs)
      then (case filterGroup (drop 7 (c # cs)) of Some g \<Rightarrow> Some g | None \<Rightarrow> matchFilter cs)
      else matchFilter cs)"

text \<open>\<open>src.replace(/=s\d+/g, "=s4096")\<close>.\<close>

definition sizeDigits :: "string \<Rightarrow> bool" where
  "sizeDigits cs = (case cs of s # d # _ \<Rightarrow> s = CHR ''s'' \<and> isDigit d | _ \<Rightarrow> False)"

function replaceSize :: "string \<Rightarrow> string" where
  "replaceSize [] = []"
| "replaceSize (c # cs) =
     (if c = CHR ''='' \<and> sizeDigits cs
      then ''=s4096'' @ replaceSize (dropWhile isDigit (tl cs))
      else c # replaceSize cs)"
  by pat_completeness auto
termination
proof (relation "measure length")
  fix c :: char and cs :: string
  have "length (dropWhile isDigit (tl cs)) \<le> length (tl cs)"
    by (rule length_dropWhile_le)
  then show "(dropWhile isDigit (tl cs), c # cs) \<in> measure length"
    by simp
qed simp_all

text \<open>
  \<open>style?.match(/filter:\s*([^;]+)/)?.[1]?.trim()\<close>, and the URL after
  \<open>if (src.includes("=s")) src = src.replace(/=s\d+/g, "=s4096")\<close>.
\<close>

definition filterInfo :: "string option \<Rightarrow> string option" where
  "filterInfo styleText =
     (case styleText of None \<Rightarrow> None | Some st \<Rightarrow> map_option trim (matchFilter st))"

definition maxResolution :: "string \<Rightarrow> string" where
  "maxResolution srcText = (if includesStr srcText ''=s'' then replaceSize srcText else srcText)"

text \<open>
  The body of the loop over the rendered layers of \<open>downloadPreset\<close>. A \<open>src\<close> that
  is \<open>null\<close> or empty fails the test \<open>if (src)\<close>; a filter that is \<open>undefined\<close>
  or empty selects the raw download.
\<close>

definition processLayer ::
  "variant \<Rightarrow> env \<Rightarrow> nat list \<Rightarrow> path \<Rightarrow> nat \<Rightarrow> layer \<Rightarrow> buffer list \<Rightarrow>
   state \<Rightarrow> buffer list outcome \<times> state" where
  "processLayer v env pos basePictureFolder i img processedImages =
     await (getAttribute env (LayerSrc, pos @ [i]) (src img)) (\<lambda>source.
       case source of
         None \<Rightarrow> return processedImages
       | Some srcText \<Rightarrow>
           if srcText = [] then return processedImages
           else
             await (getAttribute env (LayerStyle, pos @ [i]) (style img)) (\<lambda>styleText.
               let raw = await (downloadImageToBuffer env (maxResolution srcText) basePictureFolder i)
                           (\<lambda>b. await (mark (Downloaded, pos @ [i])) (\<lambda>_. return b))
               in await
                    (case filterInfo styleText of
                       None \<Rightarrow> raw
                     | Some f \<Rightarrow>
                         if f = [] then raw
                         else await (applyCSSFilterToImage v env (maxResolution srcText) f)
                                (\<lambda>b. await (mark (Filtered, pos @ [i])) (\<lambda>_. return b)))
                    (\<lambda>imageBuffer. return (processedImages @ [imageBuffer]))))"

fun layerLoop ::
  "variant \<Rightarrow> env \<Rightarrow> nat list \<Rightarrow> path \<Rightarrow> nat \<Rightarrow> layer list \<Rightarrow> buffer list \<Rightarrow>
   state \<Rightarrow> buffer list outcome \<times> state" where
  "layerLoop v env pos basePictureFolder i [] processedImages = return processedImages"
| "layerLoop v env pos basePictureFolder i (img # imgs) processedImages =
     await (processLayer v env pos basePictureFolder i img processedImages)
       (layerLoop v env pos basePictureFolder (Suc i) imgs)"

definition downloadPreset ::
  "variant \<Rightarrow> env \<Rightarrow> nat list \<Rightarrow> preset \<Rightarrow> path \<Rightarrow> nat \<Rightarrow> state \<Rightarrow> unit outcome \<times> state" where
  "downloadPreset v env pos shown basePictureFolder presetNumber =
     await (ui env (NextButton, pos)) (\<lambda>_.
     await (ui env (ImageContainer, pos)) (\<lambda>_.
     await (layerLoop v env pos basePictureFolder 0 (layers shown) []) (\<lambda>processedImages.
     await (createCompositeFromBuffers env basePictureFolder presetNumber processedImages) (\<lambda>_.
       mark (Composite, pos)))))"

text \<open>The four nested loops of the main function, innermost first.\<close>

fun presetLoop ::
  "variant \<Rightarrow> env \<Rightarrow> nat list \<Rightarrow> path \<Rightarrow> nat \<Rightarrow> preset list \<Rightarrow> state \<Rightarrow> unit outcome \<times> state" where
  "presetLoop v env pos basePictureFolder presetIndex [] = return ()"
| "presetLoop v env pos basePictureFolder presetIndex (p # ps) =
     await (ui env (SelectPreset, pos @ [presetIndex])) (\<lambda>_.
     await (downloadPreset v env (pos @ [presetIndex]) p basePictureFolder (presetIndex + 1)) (\<lambda>_.
     await (goBackToPresetSelection env (pos @ [presetIndex])) (\<lambda>_.
       presetLoop v env pos basePictureFolder (Suc presetIndex) ps)))"

fun pictureLoop ::
  "variant \<Rightarrow> env \<Rightarrow> nat list \<Rightarrow> string \<Rightarrow> string \<Rightarrow> nat \<Rightarrow> picture list \<Rightarrow>
   state \<Rightarrow> unit outcome \<times> state" where
  "pictureLoop v env pos collectionName pictureClassName pictureIndex [] = return ()"
| "pictureLoop v env pos collectionName pictureClassName pictureIndex (p # ps) =
     await (waitAndClick env (OpenPicture, pos @ [pictureIndex])) (\<lambda>_.
     await (extractTextWithFallback env (PictureName, pos @ [pictureIndex]) (title p)
              (''unknown_picture_'' @ showNat (pictureIndex + 1)) 50) (\<lambda>pictureName.
     await (ui env (PresetsHeading, pos @ [pictureIndex])) (\<lambda>_.
     await (createFolderStructure env collectionName pictureClassName pictureName) (\<lambda>basePictureFolder.
     await (presetLoop v env (pos @ [pictureIndex]) basePictureFolder 0 (presets p)) (\<lambda>_.
     await (goBackToPictureSelection env (pos @ [pictureIndex])) (\<lambda>_.
       pictureLoop v env pos collectionName pictureClassName (Suc pictureIndex) ps))))))"

fun classLoop ::
  "variant \<Rightarrow> env \<Rightarrow> nat list \<Rightarrow> string \<Rightarrow> nat \<Rightarrow> pictureClass list \<Rightarrow>
   state \<Rightarrow> unit outcome \<times> state" where
  "classLoop v env pos collectionName classIndex [] = return ()"
| "classLoop v env pos collectionName classIndex (c # cs) =
     await (extractTextWithFallback env (ClassName, pos @ [classIndex]) (label c)
              (''unknown_class_'' @ showNat (classIndex + 1)) 30) (\<lambda>pictureClassName.
     await (waitAndClick env (OpenClass, pos @ [classIndex])) (\<lambda>_.
     await (pictureLoop v env (pos @ [classIndex]) collectionName pictureClassName 0 (pictures c)) (\<lambda>_.
     await (goBackToPictureClassSelection env (pos @ [classIndex])) (\<lambda>_.
       classLoop v env pos collectionName (Suc classIndex) cs))))"

fun collectionLoop ::
  "variant \<Rightarrow> env \<Rightarrow> nat \<Rightarrow> collection list \<Rightarrow> state \<Rightarrow> unit outcome \<times> state" where
  "collectionLoop v env collectionIndex [] = return ()"
| "collectionLoop v env collectionIndex (c # cs) =
     await (extractTextWithFallback env (CollectionName, [collectionIndex]) (heading c)
              (''unknown_collection_'' @ showNat (collectionIndex + 1)) 30) (\<lambda>collectionName.
     await (classLoop v env [collectionIndex] collectionName 0 (classes c)) (\<lambda>_.
       collectionLoop v env (Suc collectionIndex) cs))"

text \<open>
  The search for the frame of the dialog (the loop over \<open>iframes\<close> in the \<open>try\<close>
  block). An iframe counts when one of its three counts is positive; what
  \<open>contentFrame\<close> or \<open>count\<close> throws inside the loop is caught there and the loop
  goes on. When no iframe counts, \<open>contentFrame\<close> of the last one is taken:
  of \<open>undefined\<close> when the page has no iframe, which throws; an exception of that
  call is not caught any more; and on \<open>null\<close> the next statement,
  \<open>profileFrame.locator\<close>, throws. The value is the ordinal of the frame.
\<close>

fun isDialog :: "probe \<Rightarrow> bool" where
  "isDialog (Counts dialogCount changeButtonCount sectionsCount) =
     (dialogCount > 0 \<or> changeButtonCount > 0 \<or> sectionsCount > 0)"
| "isDialog _ = False"

fun searchFrames :: "nat \<Rightarrow> probe list \<Rightarrow> nat option" where
  "searchFrames i [] = None"
| "searchFrames i (p # ps) = (if isDialog p then Some i else searchFrames (Suc i) ps)"

definition undefinedContentFrame :: string where
  "undefinedContentFrame =
     ''Cannot read properties of undefined (reading '' @ [CHR 0x27] @ ''contentFrame'' @
     [CHR 0x27] @ '')''"

definition nullLocator :: string where
  "nullLocator =
     ''Cannot read properties of null (reading '' @ [CHR 0x27] @ ''locator'' @ [CHR 0x27] @ '')''"

definition profileFrame :: "probe list \<Rightarrow> string + nat" where
  "profileFrame iframes =
     (case searchFrames 0 iframes of
        Some i \<Rightarrow> Inr i
      | None \<Rightarrow>
          if iframes = [] then Inl undefinedContentFrame
          else (case last iframes of
                  FrameThrows msg \<Rightarrow> Inl msg
                | FrameNull \<Rightarrow> Inl nullLocator
                | _ \<Rightarrow> Inr (length iframes - 1)))"

definition findProfileFrame :: "env \<Rightarrow> state \<Rightarrow> nat outcome \<times> state" where
  "findProfileFrame env s =
     (case profileFrame (dialogFrames env) of Inl msg \<Rightarrow> (Raise msg, s) | Inr i \<Rightarrow> (Done i, s))"

text \<open>
  The iframe read after the Change click is \<open>newIframes[2]\<close> in the typed file,
  \<open>newIframes[1]\<close> in the untyped one; reading \<open>contentFrame\<close> of \<open>undefined\<close>
  throws.
\<close>

definition frameOrdinal :: "variant \<Rightarrow> nat" where
  "frameOrdinal v = (case v of Typed \<Rightarrow> 2 | Untyped \<Rightarrow> 1)"

definition menuFrame :: "variant \<Rightarrow> env \<Rightarrow> state \<Rightarrow> collection list outcome \<times> state" where
  "menuFrame v env s =
     (if frameOrdinal v < length (frames env) then (Done (frames env ! frameOrdinal v), s)
      else (Raise undefinedContentFrame, s))"

text \<open>
  The \<open>try\<close> block: the page is opened, the profile photo is clicked, the frame of
  the dialog is searched, its Change button is clicked, and the collections of the
  frame read after the click are traversed.
\<close>

definition extraction :: "variant \<Rightarrow> env \<Rightarrow> state \<Rightarrow> unit outcome \<times> state" where
  "extraction v env =
     await (ui env (Goto, [])) (\<lambda>_.
     await (ui env (ProfilePhoto, [])) (\<lambda>_.
     await (findProfileFrame env) (\<lambda>frame.
     await (ui env (ChangeButton, [frame])) (\<lambda>_.
     await (menuFrame v env) (\<lambda>menu.
       collectionLoop v env 0 menu)))))"

text \<open>
  The whole program: the exit status (\<open>None\<close> when the process never exits), what
  \<open>console.error\<close> prints after the mark that opens its line (for the \<open>catch\<close>
  handler, after \<open>Error during extraction:\<close>, the message of the error and nothing
  else; for the authentication check its fixed text), and the state left behind.
\<close>

record run =
  exitCode :: "nat option"
  reported :: "string option"
  disk :: state

definition authMissing :: string where
  "authMissing = ''No authentication found! Please run '' @ [CHR 0x27] @ ''npm run setup'' @
     [CHR 0x27] @ '' first.''"

definition main :: "variant \<Rightarrow> env \<Rightarrow> state \<Rightarrow> run" where
  "main v env s =
     (if \<not> existsSync s PERSISTENT_CONTEXT_DIR
      then \<lparr>exitCode = Some 1, reported = Some authMissing, disk = s\<rparr>
      else
        (case extraction v env s of
           (Done _, s1) \<Rightarrow> \<lparr>exitCode = Some 0, reported = None, disk = s1\<rparr>
         | (Raise msg, s1) \<Rightarrow> \<lparr>exitCode = Some 1, reported = Some msg, disk = s1\<rparr>
         | (Stall, s1) \<Rightarrow> \<lparr>exitCode = None, reported = None, disk = s1\<rparr>))"

section \<open>The steps of a run without error\<close>

text \<open>
  What a run records when no call fails, level by level. A layer has a source when its
  \<open>src\<close> passes the test \<open>if (src)\<close>, and is filtered when \<open>filterInfo\<close> is a
  non-empty text.
\<close>

definition hasSrc :: "layer \<Rightarrow> bool" where
  "hasSrc img = (case src img of None \<Rightarrow> False | Some u \<Rightarrow> u \<noteq> [])"

definition hasFilter :: "layer \<Rightarrow> bool" where
  "hasFilter img = (case filterInfo (style img) of None \<Rightarrow> False | Some f \<Rightarrow> f \<noteq> [])"

definition layerSteps :: "nat list \<Rightarrow> nat \<Rightarrow> layer \<Rightarrow> step list" where
  "layerSteps pos i img =
     (LayerSrc, pos @ [i]) #
     (if hasSrc img
      then [(LayerStyle, pos @ [i]), (if hasFilter img then Filtered else Downloaded, pos @ [i])]
      else [])"

definition layersSteps :: "nat list \<Rightarrow> nat \<Rightarrow> layer list \<Rightarrow> step list" where
  "layersSteps pos i imgs = concat (map (\<lambda>(j, img). layerSteps pos j img) (enumerate i imgs))"

definition presetSteps :: "nat list \<Rightarrow> nat \<Rightarrow> preset \<Rightarrow> step list" where
  "presetSteps pos r p =
     [(SelectPreset, pos @ [r]), (NextButton, pos @ [r]), (ImageContainer, pos @ [r])] @
     layersSteps (pos @ [r]) 0 (layers p) @
     [(Composite, pos @ [r]), (Cancel, pos @ [r])]"

definition presetsSteps :: "nat list \<Rightarrow> nat \<Rightarrow> preset list \<Rightarrow> step list" where
  "presetsSteps pos i ps = concat (map (\<lambda>(r, p). presetSteps pos r p) (enumerate i ps))"

definition pictureSteps :: "nat list \<Rightarrow> nat \<Rightarrow> picture \<Rightarrow> step list" where
  "pictureSteps pos j p =
     [(OpenPicture, pos @ [j]), (PictureName, pos @ [j]), (PresetsHeading, pos @ [j])] @
     presetsSteps (pos @ [j]) 0 (presets p) @
     [(Back 2, pos @ [j])]"

definition picturesSteps :: "nat list \<Rightarrow> nat \<Rightarrow> picture list \<Rightarrow> step list" where
  "picturesSteps pos i ps = concat (map (\<lambda>(j, p). pictureSteps pos j p) (enumerate i ps))"

definition classSteps :: "nat list \<Rightarrow> nat \<Rightarrow> pictureClass \<Rightarrow> step list" where
  "classSteps pos k c =
     [(ClassName, pos @ [k]), (OpenClass, pos @ [k])] @
     picturesSteps (pos @ [k]) 0 (pictures c) @
     [(Back 1, pos @ [k])]"

definition classesSteps :: "nat list \<Rightarrow> nat \<Rightarrow> pictureClass list \<Rightarrow> step list" where
  "classesSteps pos i cs = concat (map (\<lambda>(k, c). classSteps pos k c) (enumerate i cs))"

definition collectionSteps :: "nat \<Rightarrow> collection \<Rightarrow> step list" where
  "collectionSteps i c = (CollectionName, [i]) # classesSteps [i] 0 (classes c)"

definition menuSteps :: "nat \<Rightarrow> collection list \<Rightarrow> step list" where
  "menuSteps i cs = concat (map (\<lambda>(j, c). collectionSteps j c) (enumerate i cs))"

definition shownMenu :: "variant \<Rightarrow> env \<Rightarrow> collection list" where
  "shownMenu v env =
     (if frameOrdinal v < length (frames env) then frames env ! frameOrdinal v else [])"

definition allSteps :: "variant \<Rightarrow> env \<Rightarrow> step list" where
  "allSteps v env =
     [(Goto, []), (ProfilePhoto, []),
      (ChangeButton, case profileFrame (dialogFrames env) of Inr i \<Rightarrow> [i] | Inl _ \<Rightarrow> [])] @
     menuSteps 0 (shownMenu v env)"

text \<open>
  \<open>emits m steps\<close>: from any state, \<open>m\<close> appends to the record a prefix of
  \<open>steps\<close>, and all of them when it is fulfilled.
\<close>

definition emits :: "(state \<Rightarrow> 'a outcome \<times> state) \<Rightarrow> step list \<Rightarrow> bool" where
  "emits m steps =
     (\<forall>s. \<exists>t. trace (snd (m s)) = trace s @ t \<and> prefix t steps \<and>
            ((\<exists>a. fst (m s) = Done a) \<longrightarrow> t = steps))"

text \<open>
  The traversal as the specification words it: depth first, every level in its
  enumeration order; per preset the output and the cancel action, after the presets of
  a picture back control 2, after the pictures of a class back control 1, and nothing
  after the classes of a collection.
\<close>

definition navPicture :: "nat list \<Rightarrow> nat \<Rightarrow> picture \<Rightarrow> step list" where
  "navPicture pos j p =
     concat (map (\<lambda>(r, _). [(Composite, pos @ [j, r]), (Cancel, pos @ [j, r])])
                 (enumerate 0 (presets p))) @
     [(Back 2, pos @ [j])]"

definition navClass :: "nat list \<Rightarrow> nat \<Rightarrow> pictureClass \<Rightarrow> step list" where
  "navClass pos k c =
     concat (map (\<lambda>(j, p). navPicture (pos @ [k]) j p) (enumerate 0 (pictures c))) @
     [(Back 1, pos @ [k])]"

definition navCollection :: "nat \<Rightarrow> collection \<Rightarrow> step list" where
  "navCollection i c = concat (map (\<lambda>(k, cl). navClass [i] k cl) (enumerate 0 (classes c)))"

definition navigation :: "collection list \<Rightarrow> step list" where
  "navigation menu = concat (map (\<lambda>(i, c). navCollection i c) (enumerate 0 menu))"

definition isNav :: "action \<Rightarrow> bool" where
  "isNav a = (case a of Composite \<Rightarrow> True | Cancel \<Rightarrow> True | Back _ \<Rightarrow> True | _ \<Rightarrow> False)"

text \<open>The code units of a cleaned name: \<open>[a-z0-9_-]\<close>.\<close>

definition pathUnit :: "char \<Rightarrow> bool" where
  "pathUnit c = (isLower c \<or> isDigit c \<or> c = CHR ''-'' \<or> c = CHR ''_'')"


text \<open>The steps a run adds to the record, and the leaves of a menu in depth-first order.\<close>

definition runSteps :: "variant \<Rightarrow> env \<Rightarrow> state \<Rightarrow> step list" where
  "runSteps v env s = drop (length (trace s)) (trace (disk (main v env s)))"

definition leaves :: "collection list \<Rightarrow> nat list list" where
  "leaves menu =
     [[i, k, j, r]. (i, c) \<leftarrow> enumerate 0 menu, (k, cl) \<leftarrow> enumerate 0 (classes c),
                    (j, p) \<leftarrow> enumerate 0 (pictures cl), (r, x) \<leftarrow> enumerate 0 (presets p)]"

section \<open>The calls of a run and their failures\<close>

text \<open>
  The calls the \<open>try\<close> block makes on a page, in the order of the traversal, each
  with the way it fails there, if it does: it raises an error with a message, or it
  never settles. A call that leaves a step in the record carries that step; the search
  for the dialog's frame and the reading of the menu's frame leave none. The failure of
  a locator call is the fault of the page at its step; that of an acquisition is read
  from \<open>https.get\<close> or from the canvas; that of the composite from \<open>sharp\<close>,
  which is not called for a single buffer.
\<close>

datatype failure = Raises string | Stalls

type_synonym call = "step option \<times> failure option"

definition locator :: "env \<Rightarrow> step \<Rightarrow> call" where
  "locator env st = (Some st, map_option Raises (fault env st))"

definition acquired :: "variant \<Rightarrow> env \<Rightarrow> layer \<Rightarrow> failure + buffer" where
  "acquired v env img =
     (let u = maxResolution (case src img of Some srcText \<Rightarrow> srcText | None \<Rightarrow> []) in
      if hasFilter img
      then (case canvas env u (case filterInfo (style img) of Some f \<Rightarrow> f | None \<Rightarrow> []) of
              Rendered png \<Rightarrow> Inr png
            | NoContext \<Rightarrow>
                Inl (case v of Typed \<Rightarrow> Raises ''Could not get canvas context'' | Untyped \<Rightarrow> Stalls)
            | LoadFailed \<Rightarrow> Inl (Raises ''Failed to load image''))
      else (case httpsGet env u of
              Piped body \<Rightarrow> Inr body
            | Threw msg \<Rightarrow> Inl (Raises msg)
            | ErrorEvent msg \<Rightarrow> Inl (Raises msg)))"

definition failed :: "failure + 'a \<Rightarrow> failure option" where
  "failed r = (case r of Inl f \<Rightarrow> Some f | Inr _ \<Rightarrow> None)"

definition layerPlan :: "variant \<Rightarrow> env \<Rightarrow> nat list \<Rightarrow> nat \<Rightarrow> layer \<Rightarrow> call list" where
  "layerPlan v env pos i img =
     locator env (LayerSrc, pos @ [i]) #
     (if hasSrc img
      then [locator env (LayerStyle, pos @ [i]),
            (Some (if hasFilter img then Filtered else Downloaded, pos @ [i]),
             failed (acquired v env img))]
      else [])"

definition layersPlan :: "variant \<Rightarrow> env \<Rightarrow> nat list \<Rightarrow> nat \<Rightarrow> layer list \<Rightarrow> call list" where
  "layersPlan v env pos i imgs =
     concat (map (\<lambda>(j, img). layerPlan v env pos j img) (enumerate i imgs))"

definition acquiredBuffers :: "variant \<Rightarrow> env \<Rightarrow> layer list \<Rightarrow> buffer list" where
  "acquiredBuffers v env imgs =
     concat (map (\<lambda>img. case acquired v env img of Inr b \<Rightarrow> [b] | Inl _ \<Rightarrow> [])
               (filter hasSrc imgs))"

definition composed :: "env \<Rightarrow> buffer list \<Rightarrow> failure option" where
  "composed env bufs =
     (if length bufs = 1 then None
      else (case sharp env (case bufs of [] \<Rightarrow> None | b # _ \<Rightarrow> Some b)
                   (map (\<lambda>b. Overlay b 0 0 ''over'') (drop 1 bufs)) 100 of
              Inl msg \<Rightarrow> Some (Raises msg)
            | Inr _ \<Rightarrow> None))"

definition presetPlan :: "variant \<Rightarrow> env \<Rightarrow> nat list \<Rightarrow> nat \<Rightarrow> preset \<Rightarrow> call list" where
  "presetPlan v env pos r p =
     [locator env (SelectPreset, pos @ [r]), locator env (NextButton, pos @ [r]),
      locator env (ImageContainer, pos @ [r])] @
     layersPlan v env (pos @ [r]) 0 (layers p) @
     [(Some (Composite, pos @ [r]), composed env (acquiredBuffers v env (layers p))),
      locator env (Cancel, pos @ [r])]"

definition presetsPlan :: "variant \<Rightarrow> env \<Rightarrow> nat list \<Rightarrow> nat \<Rightarrow> preset list \<Rightarrow> call list" where
  "presetsPlan v env pos i ps =
     concat (map (\<lambda>(r, p). presetPlan v env pos r p) (enumerate i ps))"

definition picturePlan :: "variant \<Rightarrow> env \<Rightarrow> nat list \<Rightarrow> nat \<Rightarrow> picture \<Rightarrow> call list" where
  "picturePlan v env pos j p =
     [locator env (OpenPicture, pos @ [j]), locator env (PictureName, pos @ [j]),
      locator env (PresetsHeading, pos @ [j])] @
     presetsPlan v env (pos @ [j]) 0 (presets p) @
     [locator env (Back 2, pos @ [j])]"

definition picturesPlan :: "variant \<Rightarrow> env \<Rightarrow> nat list \<Rightarrow> nat \<Rightarrow> picture list \<Rightarrow> call list" where
  "picturesPlan v env pos i ps =
     concat (map (\<lambda>(j, p). picturePlan v env pos j p) (enumerate i ps))"

definition classPlan :: "variant \<Rightarrow> env \<Rightarrow> nat list \<Rightarrow> nat \<Rightarrow> pictureClass \<Rightarrow> call list" where
  "classPlan v env pos k c =
     [locator env (ClassName, pos @ [k]), locator env (OpenClass, pos @ [k])] @
     picturesPlan v env (pos @ [k]) 0 (pictures c) @
     [locator env (Back 1, pos @ [k])]"

definition classesPlan ::
  "variant \<Rightarrow> env \<Rightarrow> nat list \<Rightarrow> nat \<Rightarrow> pictureClass list \<Rightarrow> call list" where
  "classesPlan v env pos i cs =
     concat (map (\<lambda>(k, c). classPlan v env pos k c) (enumerate i cs))"

definition collectionPlan :: "variant \<Rightarrow> env \<Rightarrow> nat \<Rightarrow> collection \<Rightarrow> call list" where
  "collectionPlan v env i c =
     locator env (CollectionName, [i]) # classesPlan v env [i] 0 (classes c)"

definition menuPlan :: "variant \<Rightarrow> env \<Rightarrow> nat \<Rightarrow> collection list \<Rightarrow> call list" where
  "menuPlan v env i cs = concat (map (\<lambda>(j, c). collectionPlan v env j c) (enumerate i cs))"

definition plan :: "variant \<Rightarrow> env \<Rightarrow> call list" where
  "plan v env =
     [locator env (Goto, []), locator env (ProfilePhoto, [])] @
     (case profileFrame (dialogFrames env) of
        Inl msg \<Rightarrow> [(None, Some (Raises msg))]
      | Inr frame \<Rightarrow>
          locator env (ChangeButton, [frame]) #
          (if frameOrdinal v < length (frames env)
           then menuPlan v env 0 (frames env ! frameOrdinal v)
           else [(None, Some (Raises undefinedContentFrame))]))"

text \<open>
  The steps of the calls before the first one that fails, the failure of that call, and
  the outcome it makes of a value. \<open>follows m calls a\<close>: from any state, \<open>m\<close>
  records the steps of the calls that precede the first failing one and nothing else,
  and ends as that call does, or with \<open>a\<close> when none fails.
\<close>

definition completed :: "call list \<Rightarrow> step list" where
  "completed calls = List.map_filter fst (takeWhile (\<lambda>c. snd c = None) calls)"

definition firstFailure :: "call list \<Rightarrow> failure option" where
  "firstFailure calls = (case dropWhile (\<lambda>c. snd c = None) calls of [] \<Rightarrow> None | c # _ \<Rightarrow> snd c)"

definition ended :: "failure option \<Rightarrow> 'a \<Rightarrow> 'a outcome" where
  "ended f a = (case f of None \<Rightarrow> Done a | Some (Raises msg) \<Rightarrow> Raise msg | Some Stalls \<Rightarrow> Stall)"

definition follows :: "(state \<Rightarrow> 'a outcome \<times> state) \<Rightarrow> call list \<Rightarrow> 'a \<Rightarrow> bool" where
  "follows m calls a =
     (\<forall>s. trace (snd (m s)) = trace s @ completed calls \<and>
          fst (m s) = ended (firstFailure calls) a)"

text \<open>
  The calls above leave out \<open>mkdirSync\<close>, whose failure depends on the folders the
  disk holds. \<open>performs env m calls a\<close>: from any state, \<open>m\<close> follows the calls,
  or it is rejected with an error of \<open>mkdirSync\<close> after some of the steps that
  precede the first failing call.
\<close>

definition performs ::
  "env \<Rightarrow> (state \<Rightarrow> 'a outcome \<times> state) \<Rightarrow> call list \<Rightarrow> 'a \<Rightarrow> bool" where
  "performs env m calls a =
     (\<forall>s. (trace (snd (m s)) = trace s @ completed calls \<and>
           fst (m s) = ended (firstFailure calls) a) \<or>
          (\<exists>p msg t. mkdirSync env p = Some msg \<and> fst (m s) = Raise msg \<and>
             trace (snd (m s)) = trace s @ t \<and> prefix t (completed calls)))"

section \<open>A mock menu\<close>

text \<open>
  Two collections of one class, one picture and two presets each; the second preset
  shows a raw layer and a filtered one. Before the Change click the second iframe of the
  page shows the dialog; after it the third iframe renders the menu; no call fails, and
  the session directory exists.
\<close>

definition rawLayer :: layer where
  "rawLayer = \<lparr>src = Some ''https://lh3.example/a=s96-c'', style = None\<rparr>"

definition tintLayer :: layer where
  "tintLayer = \<lparr>src = Some ''https://lh3.example/b=s128'',
                 style = Some ''opacity: 1; filter: hue-rotate(90deg) ;''\<rparr>"

definition mockPicture :: picture where
  "mockPicture = \<lparr>title = Some ''Red Panda'',
                   presets = [\<lparr>layers = [rawLayer]\<rparr>, \<lparr>layers = [rawLayer, tintLayer]\<rparr>]\<rparr>"

definition mockMenu :: "collection list" where
  "mockMenu =
     [\<lparr>heading = Some ''Animals'', classes = [\<lparr>label = Some ''Wild'', pictures = [mockPicture]\<rparr>]\<rparr>,
      \<lparr>heading = Some ''Cities'', classes = [\<lparr>label = Some ''Europe'', pictures = [mockPicture]\<rparr>]\<rparr>]"

definition mockEnv :: env where
  "mockEnv = \<lparr>frames = [[], [], mockMenu], fault = (\<lambda>_. None), httpsGet = (\<lambda>_. Piped [1, 2, 3]),
               canvas = (\<lambda>_ _. Rendered [4, 5]), sharp = (\<lambda>_ _ _. Inr [9]),
               dialogFrames = [FrameNull, Counts 1 1 0], mkdirSync = (\<lambda>_. None)\<rparr>"

definition mockDisk :: state where
  "mockDisk = \<lparr>fs = Map.empty, dirs = {PERSISTENT_CONTEXT_DIR}, trace = []\<rparr>"

text \<open>
  A page on which no call fails, and a call that is fulfilled from every state.
\<close>

definition healthy :: "env \<Rightarrow> bool" where
  "healthy env =
     ((\<forall>st. fault env st = None) \<and> (\<forall>u. \<exists>b. httpsGet env u = Piped b) \<and>
      (\<forall>u f. \<exists>b. canvas env u f = Rendered b) \<and> (\<forall>b os q. \<exists>j. sharp env b os q = Inr j) \<and>
      (\<forall>p. mkdirSync env p = None) \<and> (\<exists>i. profileFrame (dialogFrames env) = Inr i))"

definition succeeds :: "(state \<Rightarrow> 'a outcome \<times> state) \<Rightarrow> bool" where
  "succeeds m = (\<forall>s. \<exists>a s'. m s = (Done a, s'))"

text \<open>
  A second menu with other names, a page whose class button never appears (the wait of
  \<open>waitAndClick\<close> on the first class times out), a page whose transfers all end in
  an \<open>error\<close> event, a page on which \<open>sharp\<close> refuses its input, a disk on
  which no folder can be made, and a disk without the session folder.
\<close>

definition otherMenu :: "collection list" where
  "otherMenu =
     [\<lparr>heading = Some ''Plants'', classes = [\<lparr>label = Some ''Trees'', pictures = [mockPicture]\<rparr>]\<rparr>]"

definition timeoutMessage :: string where
  "timeoutMessage = ''locator.waitFor: Timeout 5000ms exceeded.''"

definition stuckEnv :: "collection list \<Rightarrow> env" where
  "stuckEnv menu =
     mockEnv\<lparr>frames := [[], [], menu],
             fault := (\<lambda>st. if st = (OpenClass, [0, 0]) then Some timeoutMessage else None)\<rparr>"

definition brokenLinkEnv :: env where
  "brokenLinkEnv = mockEnv\<lparr>httpsGet := (\<lambda>_. ErrorEvent ''read ECONNRESET'')\<rparr>"

definition unsupportedEnv :: env where
  "unsupportedEnv =
     mockEnv\<lparr>sharp := (\<lambda>_ _ _. Inl ''Input buffer contains unsupported image format'')\<rparr>"

definition readOnlyEnv :: env where
  "readOnlyEnv = mockEnv\<lparr>mkdirSync := (\<lambda>_. Some ''EACCES: permission denied, mkdir'')\<rparr>"

definition emptyDisk :: state where
  "emptyDisk = \<lparr>fs = Map.empty, dirs = {}, trace = []\<rparr>"

text \<open>
  A layer without \<open>src\<close>, a layer whose \<open>src\<close> is the empty text, a page that
  answers only the URLs rewritten to the size 4096, and a page on which \<open>https.get\<close>
  refuses every URL that is not \<open>https:\<close>.
\<close>

definition bareLayer :: layer where
  "bareLayer = \<lparr>src = None, style = Some ''filter: blur(1px)''\<rparr>"

definition emptyLayer :: layer where
  "emptyLayer = \<lparr>src = Some [], style = None\<rparr>"


definition invalidProtocol :: string where
  "invalidProtocol =
     ''Protocol '' @ [CHR 0x22] @ ''data:'' @ [CHR 0x22] @ '' not supported. Expected '' @
     [CHR 0x22] @ ''https:'' @ [CHR 0x22]"

definition throwingEnv :: env where
  "throwingEnv = mockEnv
     \<lparr>httpsGet := (\<lambda>u. if prefix ''https://'' u then Piped [1, 2, 3]
                       else Threw invalidProtocol)\<rparr>"







section \<open>The sanitizer\<close>

lemma collapseSpaces_units:
  "\<forall>c\<in>set s. keptUnit c \<Longrightarrow> \<forall>c\<in>set (collapseSpaces s). pathUnit c"
proof (induction s rule: collapseSpaces.induct)
  case 1
  then show ?case by simp
next
  case (2 c cs)
  show ?case
  proof (cases "isSpace c")
    case True
    have "\<forall>x\<in>set (dropWhile isSpace cs). keptUnit x"
      using 2(3) by (auto dest: set_dropWhileD)
    with 2(1)[OF True] True show ?thesis by (simp add: pathUnit_def)
  next
    case False
    with 2(2)[OF False] 2(3) show ?thesis by (auto simp: pathUnit_def keptUnit_def)
  qed
qed

lemma pathUnit_not_space: "pathUnit c \<Longrightarrow> \<not> isSpace c"
  by (auto simp: pathUnit_def isSpace_def isLower_def isDigit_def)

lemma lowerChar_fixes: "c \<notin> set upperUnits \<Longrightarrow> lowerChar c = c"
proof -
  assume c: "c \<notin> set upperUnits"
  have "length upperUnits = length lowerUnits"
    by (simp add: upperUnits_def lowerUnits_def)
  then have "map_of (zip upperUnits lowerUnits) c = None"
    using c by (simp add: map_of_zip_is_None)
  then show ?thesis by (simp add: lowerChar_def)
qed

lemma pathUnit_not_upper: "pathUnit c \<Longrightarrow> c \<notin> set upperUnits"
  unfolding pathUnit_def isLower_def isDigit_def
  by (elim disjE) (auto simp: upperUnits_def)

lemma pathUnit_lower: "pathUnit c \<Longrightarrow> lowerChar c = c"
  by (rule lowerChar_fixes[OF pathUnit_not_upper])

lemma pathUnit_kept: "pathUnit c \<Longrightarrow> keptUnit c = (c \<noteq> CHR ''_'')"
  by (auto simp: pathUnit_def keptUnit_def isLower_def isDigit_def isSpace_def)

lemma collapseSpaces_id: "\<forall>c\<in>set s. \<not> isSpace c \<Longrightarrow> collapseSpaces s = s"
  by (induction s) auto

lemma dropWhile_none: "\<forall>c\<in>set s. \<not> P c \<Longrightarrow> dropWhile P s = s"
  by (cases s) auto

lemma trim_id: "\<forall>c\<in>set s. \<not> isSpace c \<Longrightarrow> trim s = s"
  using dropWhile_none[of s isSpace] dropWhile_none[of "rev s" isSpace] by (simp add: trim_def)

lemma cleaned_units:
  "\<forall>c\<in>set (take m (collapseSpaces (filter keptUnit (toLowerCase x)))). pathUnit c"
proof -
  have "\<forall>c\<in>set (collapseSpaces (filter keptUnit (toLowerCase x))). pathUnit c"
    by (rule collapseSpaces_units) simp
  then show ?thesis by (auto dest: in_set_takeD)
qed

lemma clean_of_path_string:
  assumes u: "\<forall>c\<in>set y. pathUnit c" and ne: "y \<noteq> []"
  shows "cleanTextForPath y m = take m (filter (\<lambda>c. c \<noteq> CHR ''_'') y)"
proof -
  have ns: "\<forall>c\<in>set y. \<not> isSpace c" using u pathUnit_not_space by blast
  have t: "trim y = y" by (rule trim_id[OF ns])
  have l: "toLowerCase y = y" using u by (simp add: toLowerCase_def map_idI pathUnit_lower)
  have f: "filter keptUnit y = filter (\<lambda>c. c \<noteq> CHR ''_'') y"
    using u by (intro filter_cong) (auto simp: pathUnit_kept)
  have c: "collapseSpaces (filter (\<lambda>c. c \<noteq> CHR ''_'') y) = filter (\<lambda>c. c \<noteq> CHR ''_'') y"
    by (rule collapseSpaces_id) (use ns in auto)
  show ?thesis using ne by (simp add: cleanTextForPath_def t l f c)
qed

lemma unknown_units: "\<forall>c\<in>set ''unknown''. pathUnit c"
  by (simp add: pathUnit_def isLower_def)

lemma cleaned_is_path_string: "\<forall>c\<in>set (cleanTextForPath x m). pathUnit c"
  unfolding cleanTextForPath_def using cleaned_units[of m x] unknown_units
  by (simp del: set_simps list.set)


text \<open>
  C3, as stated: the sanitizer is idempotent. It is not: white space inside the text
  becomes an underscore, and the underscore is deleted when the result is cleaned again.
\<close>

theorem sanitize_not_idempotent:
  "cleanTextForPath (cleanTextForPath ''a b'' 30) 30 \<noteq> cleanTextForPath ''a b'' 30"
  by code_simp

text \<open>
  C3, amended: cleaning a cleaned name returns it unchanged exactly when that name is not
  empty, holds no underscore and is at most \<open>maxLength\<close> code units long.
\<close>

theorem sanitize_idempotent_iff:
  "cleanTextForPath (cleanTextForPath x m) m = cleanTextForPath x m \<longleftrightarrow>
     cleanTextForPath x m \<noteq> [] \<and> CHR ''_'' \<notin> set (cleanTextForPath x m) \<and>
     length (cleanTextForPath x m) \<le> m"
proof (cases "cleanTextForPath x m = []")
  case True
  then show ?thesis by (simp add: cleanTextForPath_def)
next
  case False
  let ?y = "cleanTextForPath x m"
  have eq: "cleanTextForPath ?y m = take m (filter (\<lambda>c. c \<noteq> CHR ''_'') ?y)"
    by (rule clean_of_path_string[OF cleaned_is_path_string False])
  show ?thesis
  proof
    assume "cleanTextForPath ?y m = ?y"
    with eq have h: "take m (filter (\<lambda>c. c \<noteq> CHR ''_'') ?y) = ?y" by simp
    have "length (take m (filter (\<lambda>c. c \<noteq> CHR ''_'') ?y)) = length ?y"
      using h by simp
    then have le: "length ?y \<le> length (filter (\<lambda>c. c \<noteq> CHR ''_'') ?y)"
      and m: "length ?y \<le> m"
      by simp_all
    have n: "CHR ''_'' \<notin> set ?y"
    proof
      assume "CHR ''_'' \<in> set ?y"
      then have "length (filter (\<lambda>c. c \<noteq> CHR ''_'') ?y) < length ?y"
        by (rule length_filter_less) simp
      with le show False by simp
    qed
    note m
    with n False show "?y \<noteq> [] \<and> CHR ''_'' \<notin> set ?y \<and> length ?y \<le> m" by simp
  next
    assume a: "?y \<noteq> [] \<and> CHR ''_'' \<notin> set ?y \<and> length ?y \<le> m"
    then have "filter (\<lambda>c. c \<noteq> CHR ''_'') ?y = ?y" by (auto simp: filter_id_conv)
    with eq a show "cleanTextForPath ?y m = ?y" by simp
  qed
qed


text \<open>
  What C4 says of the characters, the length and the fallback holds: a text that is not
  blank is cleaned to at most \<open>maxLength\<close> code units of \<open>[a-z0-9_-]\<close>, and a
  missing or blank text gives the fallback name.
\<close>

lemma sanitizer_shape:
  assumes "trim t \<noteq> []"
  shows "(\<forall>c\<in>set (textOrFallback (Some t) fb m). pathUnit c) \<and>
         length (textOrFallback (Some t) fb m) \<le> m"
proof -
  from assms have "t \<noteq> []" by (auto simp: trim_def)
  with assms have "textOrFallback (Some t) fb m =
      take m (collapseSpaces (filter keptUnit (toLowerCase t)))"
    by (simp add: textOrFallback_def cleanTextForPath_def)
  with cleaned_units[of m t] show ?thesis by simp
qed

lemma sanitizer_fallback:
  "text = None \<or> (\<exists>t. text = Some t \<and> trim t = []) \<Longrightarrow> textOrFallback text fb m = fb"
  by (auto simp: textOrFallback_def)

text \<open>
  C4: every path segment is non-empty. The code misses a case: the test for an empty
  name is made on the text before it is cleaned, so a title without any letter, digit,
  hyphen or white space of the kept set (any title in a non-Latin script) is cleaned to
  the empty name. \<open>path.join\<close> then drops the segment: the picture is stored in the
  folder of its class, under the name of the class, and so is every other picture of
  the class with such a title.
\<close>

theorem empty_path_segment:
  "textOrFallback (Some ''???'') ''unknown_picture_1'' 50 = [] \<and>
   textOrFallback (Some ''!?'') ''unknown_picture_2'' 50 = [] \<and>
   fst (createFolderStructure mockEnv ''animals'' ''wild''
          (textOrFallback (Some ''???'') ''unknown_picture_1'' 50) mockDisk) =
     Done [''images'', ''animals'', ''wild''] \<and>
   finalPath [''images'', ''animals'', ''wild''] 1 = [''images'', ''animals'', ''wild'', ''wild_1.jpg'']"
proof -
  have a: "textOrFallback (Some ''???'') ''unknown_picture_1'' 50 = []"
    "textOrFallback (Some ''!?'') ''unknown_picture_2'' 50 = []"
    by code_simp+
  have b: "fst (createFolderStructure mockEnv ''animals'' ''wild'' [] mockDisk) =
      Done [''images'', ''animals'', ''wild'']"
    by (simp add: createFolderStructure_def pathJoin_def DOWNLOADS_DIR_def Let_def existsSync_def
        mockDisk_def mockEnv_def PERSISTENT_CONTEXT_DIR_def)
  have c: "finalPath [''images'', ''animals'', ''wild''] 1 = [''images'', ''animals'', ''wild'', ''wild_1.jpg'']"
    by (simp add: finalPath_def pathJoin_def basename_def)
  from a b c show ?thesis by simp
qed

section \<open>What a run records\<close>

lemma await_Done: "m s = (Done a, s1) \<Longrightarrow> await m f s = f a s1"
  by (simp add: await_def)

lemma await_not_Done: "m s = (r, s1) \<Longrightarrow> \<forall>a. r \<noteq> Done a \<Longrightarrow> \<exists>r'. await m f s = (r', s1) \<and> (\<forall>a. r' \<noteq> Done a)"
  by (cases r) (auto simp: await_def)

lemma await_return: "await (return a) f = f a"
  by (rule ext) (simp add: await_def return_def)

lemma await_assoc: "await (await m f) g = await m (\<lambda>a. await (f a) g)"
  by (rule ext) (auto simp: await_def split: prod.splits outcome.splits)

lemma emits_return: "emits (return a) []"
  by (simp add: emits_def return_def)

lemma emits_mark: "emits (mark st) [st]"
  by (simp add: emits_def mark_def)

lemma emits_raise: "emits (\<lambda>s. (Raise msg, s)) steps"
  by (simp add: emits_def)

lemma emits_ui: "emits (ui env st) [st]"
  by (auto simp: emits_def ui_def mark_def split: option.splits)

lemma emits_await:
  assumes m: "emits m steps1" and f: "\<And>a. emits (f a) steps2"
  shows "emits (await m f) (steps1 @ steps2)"
  unfolding emits_def
proof
  fix s
  obtain r s1 where ms: "m s = (r, s1)" by (cases "m s")
  from m obtain t1 where t1: "trace s1 = trace s @ t1" "prefix t1 steps1"
    "(\<exists>a. r = Done a) \<longrightarrow> t1 = steps1"
    unfolding emits_def using ms by (metis fst_conv snd_conv)
  show "\<exists>t. trace (snd (await m f s)) = trace s @ t \<and> prefix t (steps1 @ steps2) \<and>
          ((\<exists>a. fst (await m f s) = Done a) \<longrightarrow> t = steps1 @ steps2)"
  proof (cases r)
    case (Done a)
    from f[of a] obtain t2 where t2: "trace (snd (f a s1)) = trace s1 @ t2" "prefix t2 steps2"
      "(\<exists>b. fst (f a s1) = Done b) \<longrightarrow> t2 = steps2"
      unfolding emits_def by blast
    have aw: "await m f s = f a s1" using ms Done by (simp add: await_def)
    from t1 Done have "t1 = steps1" by simp
    with t1 t2 aw show ?thesis by (intro exI[of _ "steps1 @ t2"]) simp
  next
    case (Raise msg)
    with ms have "await m f s = (Raise msg, s1)" by (simp add: await_def)
    with t1 show ?thesis by (intro exI[of _ t1]) (simp add: prefix_prefix)
  next
    case Stall
    with ms have "await m f s = (Stall, s1)" by (simp add: await_def)
    with t1 show ?thesis by (intro exI[of _ t1]) (simp add: prefix_prefix)
  qed
qed

lemma emits_ui_then: "emits (f ()) steps \<Longrightarrow> emits (await (ui env st) f) (st # steps)"
  using emits_await[OF emits_ui, of f steps env st] by simp

lemma emits_mark_then: "emits (f ()) steps \<Longrightarrow> emits (await (mark st) f) (st # steps)"
  using emits_await[OF emits_mark, of f steps st] by simp

lemma emits_silent_then: "emits m [] \<Longrightarrow> (\<And>a. emits (f a) steps) \<Longrightarrow> emits (await m f) steps"
  using emits_await[of m "[]" f steps] by simp

lemma textContent_await: "await (textContent env st a) f = await (ui env st) (\<lambda>_. f a)"
  by (simp add: textContent_def await_assoc await_return)

lemma getAttribute_await: "await (getAttribute env st a) f = await (ui env st) (\<lambda>_. f a)"
  by (simp add: getAttribute_def await_assoc await_return)

lemma processLayer_skip:
  "\<not> hasSrc img \<Longrightarrow>
   processLayer v env pos folder i img acc = await (ui env (LayerSrc, pos @ [i])) (\<lambda>_. return acc)"
  by (auto simp: processLayer_def getAttribute_await hasSrc_def split: option.splits)

lemma processLayer_raw:
  "src img = Some u \<Longrightarrow> u \<noteq> [] \<Longrightarrow> \<not> hasFilter img \<Longrightarrow>
   processLayer v env pos folder i img acc =
     await (ui env (LayerSrc, pos @ [i])) (\<lambda>_.
     await (ui env (LayerStyle, pos @ [i])) (\<lambda>_.
     await (downloadImageToBuffer env (maxResolution u) folder i) (\<lambda>b.
     await (mark (Downloaded, pos @ [i])) (\<lambda>_. return (acc @ [b])))))"
  by (auto simp: processLayer_def getAttribute_await hasFilter_def await_assoc await_return
      split: option.splits)

lemma processLayer_filtered:
  "src img = Some u \<Longrightarrow> u \<noteq> [] \<Longrightarrow> filterInfo (style img) = Some f \<Longrightarrow> f \<noteq> [] \<Longrightarrow>
   processLayer v env pos folder i img acc =
     await (ui env (LayerSrc, pos @ [i])) (\<lambda>_.
     await (ui env (LayerStyle, pos @ [i])) (\<lambda>_.
     await (applyCSSFilterToImage v env (maxResolution u) f) (\<lambda>b.
     await (mark (Filtered, pos @ [i])) (\<lambda>_. return (acc @ [b])))))"
  by (simp add: processLayer_def getAttribute_await await_assoc await_return)

lemma emits_extractText: "emits (extractTextWithFallback env st shown fb n) [st]"
  unfolding extractTextWithFallback_def textContent_await
  by (intro emits_ui_then emits_return)

lemma emits_extractText_then:
  "(\<And>a. emits (f a) steps) \<Longrightarrow> emits (await (extractTextWithFallback env st shown fb n) f) (st # steps)"
  using emits_await[OF emits_extractText, of f steps] by simp

lemma emits_downloadImage: "emits (downloadImage env url p) []"
  by (auto simp: emits_def downloadImage_def Let_def split: transfer.splits)

lemma emits_readFileSync: "emits (readFileSync p) []"
  by (auto simp: emits_def readFileSync_def split: option.splits)

lemma emits_unlinkSync: "emits (unlinkSync p) []"
  by (auto simp: emits_def unlinkSync_def split: option.splits)

lemma emits_downloadImageToBuffer: "emits (downloadImageToBuffer env u folder i) []"
  unfolding downloadImageToBuffer_def
  by (intro emits_silent_then emits_downloadImage emits_readFileSync emits_unlinkSync emits_return)

lemma emits_applyCSSFilterToImage: "emits (applyCSSFilterToImage v env u f) []"
  by (auto simp: emits_def applyCSSFilterToImage_def split: rendering.splits variant.splits)

lemma emits_createComposite: "emits (createCompositeFromBuffers env folder n bufs) []"
  by (auto simp: emits_def createCompositeFromBuffers_def split: sum.splits)

lemma emits_createFolder: "emits (createFolderStructure env a b c) []"
  by (auto simp: emits_def createFolderStructure_def Let_def split: option.splits)

lemmas emits_download_then = emits_silent_then[OF emits_downloadImageToBuffer]
lemmas emits_filter_then = emits_silent_then[OF emits_applyCSSFilterToImage]
lemmas emits_composite_then = emits_silent_then[OF emits_createComposite]
lemmas emits_folder_then = emits_silent_then[OF emits_createFolder]

lemma emits_processLayer:
  "emits (processLayer v env pos folder i img acc) (layerSteps pos i img)"
proof (cases "hasSrc img")
  case False
  then show ?thesis
    unfolding processLayer_def getAttribute_await layerSteps_def
    by (auto simp: hasSrc_def split: option.splits intro!: emits_ui_then emits_return)
next
  case True
  then obtain u where u: "src img = Some u" "u \<noteq> []"
    by (auto simp: hasSrc_def split: option.splits)
  show ?thesis
  proof (cases "hasFilter img")
    case False
    then have "processLayer v env pos folder i img acc =
        await (ui env (LayerSrc, pos @ [i])) (\<lambda>_.
        await (ui env (LayerStyle, pos @ [i])) (\<lambda>_.
        await (downloadImageToBuffer env (maxResolution u) folder i) (\<lambda>b.
        await (mark (Downloaded, pos @ [i])) (\<lambda>_. return (acc @ [b])))))"
      using u
      by (auto simp: processLayer_def getAttribute_await hasFilter_def await_assoc await_return
          split: option.splits)
    then show ?thesis
      using True False
      by (auto simp: layerSteps_def
          intro!: emits_ui_then emits_download_then emits_mark_then emits_return)
  next
    case hf: True
    then obtain f where f: "filterInfo (style img) = Some f" "f \<noteq> []"
      by (auto simp: hasFilter_def split: option.splits)
    have "processLayer v env pos folder i img acc =
        await (ui env (LayerSrc, pos @ [i])) (\<lambda>_.
        await (ui env (LayerStyle, pos @ [i])) (\<lambda>_.
        await (applyCSSFilterToImage v env (maxResolution u) f) (\<lambda>b.
        await (mark (Filtered, pos @ [i])) (\<lambda>_. return (acc @ [b])))))"
      using u f
      by (simp add: processLayer_def getAttribute_await await_assoc await_return)
    then show ?thesis
      using True hf
      by (auto simp: layerSteps_def
          intro!: emits_ui_then emits_filter_then emits_mark_then emits_return)
  qed
qed

lemma layersSteps_Cons:
  "layersSteps pos i (img # imgs) = layerSteps pos i img @ layersSteps pos (Suc i) imgs"
  by (simp add: layersSteps_def)

lemma emits_layerLoop:
  "emits (layerLoop v env pos folder i imgs acc) (layersSteps pos i imgs)"
proof (induction imgs arbitrary: i acc)
  case Nil
  show ?case by (simp add: layersSteps_def emits_return)
next
  case (Cons img imgs)
  show ?case
    unfolding layerLoop.simps layersSteps_Cons
    by (rule emits_await[OF emits_processLayer Cons])
qed


lemma emits_downloadPreset:
  "emits (downloadPreset v env pos p folder n)
     ([(NextButton, pos), (ImageContainer, pos)] @ layersSteps pos 0 (layers p) @ [(Composite, pos)])"
  unfolding downloadPreset_def
  apply simp
  apply (intro emits_ui_then)
  apply (rule emits_await[OF emits_layerLoop])
  apply (intro emits_composite_then emits_mark)
  done

lemma presetsSteps_Cons:
  "presetsSteps pos i (p # ps) = presetSteps pos i p @ presetsSteps pos (Suc i) ps"
  by (simp add: presetsSteps_def)

lemma emits_presetLoop:
  "emits (presetLoop v env pos folder i ps) (presetsSteps pos i ps)"
proof (induction ps arbitrary: i)
  case Nil
  show ?case by (simp add: presetsSteps_def emits_return)
next
  case (Cons p ps)
  have "emits (await (downloadPreset v env (pos @ [i]) p folder (i + 1)) (\<lambda>_.
          await (goBackToPresetSelection env (pos @ [i])) (\<lambda>_.
            presetLoop v env pos folder (Suc i) ps)))
        (([(NextButton, pos @ [i]), (ImageContainer, pos @ [i])] @
          layersSteps (pos @ [i]) 0 (layers p) @ [(Composite, pos @ [i])]) @
         ((Cancel, pos @ [i]) # presetsSteps pos (Suc i) ps))"
    unfolding goBackToPresetSelection_def
    by (intro emits_await[OF emits_downloadPreset] emits_ui_then Cons)
  then show ?case
    unfolding presetLoop.simps presetsSteps_Cons presetSteps_def
    by (simp only: append.simps append_assoc) (intro emits_ui_then)
qed

lemma picturesSteps_Cons:
  "picturesSteps pos i (p # ps) = pictureSteps pos i p @ picturesSteps pos (Suc i) ps"
  by (simp add: picturesSteps_def)

lemma emits_pictureLoop:
  "emits (pictureLoop v env pos cn kn i ps) (picturesSteps pos i ps)"
proof (induction ps arbitrary: i)
  case Nil
  show ?case by (simp add: picturesSteps_def emits_return)
next
  case (Cons p ps)
  have "\<And>folder. emits (await (presetLoop v env (pos @ [i]) folder 0 (presets p)) (\<lambda>_.
          await (goBackToPictureSelection env (pos @ [i])) (\<lambda>_.
            pictureLoop v env pos cn kn (Suc i) ps)))
        (presetsSteps (pos @ [i]) 0 (presets p) @
         ((Back 2, pos @ [i]) # picturesSteps pos (Suc i) ps))"
    unfolding goBackToPictureSelection_def
    by (intro emits_await[OF emits_presetLoop] emits_ui_then Cons)
  then show ?case
    unfolding pictureLoop.simps picturesSteps_Cons pictureSteps_def waitAndClick_def
    by (simp only: append.simps append_assoc)
       (intro emits_ui_then emits_extractText_then emits_folder_then)
qed

lemma classesSteps_Cons:
  "classesSteps pos i (c # cs) = classSteps pos i c @ classesSteps pos (Suc i) cs"
  by (simp add: classesSteps_def)

lemma emits_classLoop:
  "emits (classLoop v env pos cn i cs) (classesSteps pos i cs)"
proof (induction cs arbitrary: i)
  case Nil
  show ?case by (simp add: classesSteps_def emits_return)
next
  case (Cons c cs)
  have "\<And>kn. emits (await (pictureLoop v env (pos @ [i]) cn kn 0 (pictures c)) (\<lambda>_.
          await (goBackToPictureClassSelection env (pos @ [i])) (\<lambda>_.
            classLoop v env pos cn (Suc i) cs)))
        (picturesSteps (pos @ [i]) 0 (pictures c) @
         ((Back 1, pos @ [i]) # classesSteps pos (Suc i) cs))"
    unfolding goBackToPictureClassSelection_def
    by (intro emits_await[OF emits_pictureLoop] emits_ui_then Cons)
  then show ?case
    unfolding classLoop.simps classesSteps_Cons classSteps_def waitAndClick_def
    by (simp only: append.simps append_assoc) (intro emits_ui_then emits_extractText_then)
qed

lemma menuSteps_Cons:
  "menuSteps i (c # cs) = collectionSteps i c @ menuSteps (Suc i) cs"
  by (simp add: menuSteps_def)

lemma emits_collectionLoop:
  "emits (collectionLoop v env i cs) (menuSteps i cs)"
proof (induction cs arbitrary: i)
  case Nil
  show ?case by (simp add: menuSteps_def emits_return)
next
  case (Cons c cs)
  have "\<And>cn. emits (await (classLoop v env [i] cn 0 (classes c)) (\<lambda>_.
          collectionLoop v env (Suc i) cs))
        (classesSteps [i] 0 (classes c) @ menuSteps (Suc i) cs)"
    by (intro emits_await[OF emits_classLoop] Cons)
  then show ?case
    unfolding collectionLoop.simps menuSteps_Cons collectionSteps_def
    by (simp only: append.simps append_assoc) (intro emits_extractText_then)
qed

lemma await_raise: "await (\<lambda>s. (Raise msg, s)) f = (\<lambda>s. (Raise msg, s))"
  by (rule ext) (simp add: await_def)

lemma findProfileFrame_Inr:
  "profileFrame (dialogFrames env) = Inr i \<Longrightarrow> findProfileFrame env = return i"
  by (rule ext) (simp add: findProfileFrame_def return_def)

lemma findProfileFrame_Inl:
  "profileFrame (dialogFrames env) = Inl msg \<Longrightarrow> findProfileFrame env = (\<lambda>s. (Raise msg, s))"
  by (rule ext) (simp add: findProfileFrame_def)

lemma menuFrame_shown:
  "frameOrdinal v < length (frames env) \<Longrightarrow> menuFrame v env = return (frames env ! frameOrdinal v)"
  by (rule ext) (simp add: menuFrame_def return_def)

lemma menuFrame_undefined:
  "\<not> frameOrdinal v < length (frames env) \<Longrightarrow>
   menuFrame v env = (\<lambda>s. (Raise undefinedContentFrame, s))"
  by (rule ext) (simp add: menuFrame_def)

lemma emits_extraction: "emits (extraction v env) (allSteps v env)"
proof (cases "profileFrame (dialogFrames env)")
  case (Inl msg)
  show ?thesis
    unfolding extraction_def allSteps_def findProfileFrame_Inl[OF Inl] await_raise
    by (simp only: append.simps) (intro emits_ui_then emits_raise)
next
  case (Inr i)
  show ?thesis
  proof (cases "frameOrdinal v < length (frames env)")
    case True
    show ?thesis
      unfolding extraction_def allSteps_def shownMenu_def findProfileFrame_Inr[OF Inr]
        menuFrame_shown[OF True] await_return Inr
      using True
      by (simp only: append.simps if_True sum.case) (intro emits_ui_then emits_collectionLoop)
  next
    case False
    show ?thesis
      unfolding extraction_def allSteps_def shownMenu_def findProfileFrame_Inr[OF Inr]
        menuFrame_undefined[OF False] await_return await_raise Inr
      using False
      by (simp only: append.simps if_False sum.case) (intro emits_ui_then emits_raise)
  qed
qed

lemma isNav_simps:
  "isNav Composite" "isNav Cancel" "isNav (Back n)"
  "\<not> isNav Goto" "\<not> isNav ProfilePhoto" "\<not> isNav ChangeButton"
  "\<not> isNav CollectionName" "\<not> isNav ClassName" "\<not> isNav OpenClass"
  "\<not> isNav OpenPicture" "\<not> isNav PictureName" "\<not> isNav PresetsHeading"
  "\<not> isNav SelectPreset" "\<not> isNav NextButton" "\<not> isNav ImageContainer"
  "\<not> isNav LayerSrc" "\<not> isNav LayerStyle" "\<not> isNav Downloaded" "\<not> isNav Filtered"
  by (simp_all add: isNav_def)

lemma nav_layerSteps: "filter (\<lambda>e. isNav (fst e)) (layerSteps pos i img) = []"
  by (simp add: layerSteps_def isNav_simps)

lemma nav_layersSteps: "filter (\<lambda>e. isNav (fst e)) (layersSteps pos i imgs) = []"
  by (induction imgs arbitrary: i) (simp_all add: layersSteps_Cons nav_layerSteps, simp add: layersSteps_def)

lemma nav_presetsSteps:
  "filter (\<lambda>e. isNav (fst e)) (presetsSteps pos i ps) =
   concat (map (\<lambda>(r, _). [(Composite, pos @ [r]), (Cancel, pos @ [r])]) (enumerate i ps))"
proof (induction ps arbitrary: i)
  case Nil
  show ?case by (simp add: presetsSteps_def)
next
  case (Cons p ps)
  show ?case
    by (simp add: presetsSteps_Cons presetSteps_def nav_layersSteps Cons isNav_simps)
qed

lemma nav_pictureSteps:
  "filter (\<lambda>e. isNav (fst e)) (pictureSteps pos j p) = navPicture pos j p"
  by (simp add: pictureSteps_def navPicture_def nav_presetsSteps isNav_simps)

lemma nav_picturesSteps:
  "filter (\<lambda>e. isNav (fst e)) (picturesSteps pos i ps) =
   concat (map (\<lambda>(j, p). navPicture pos j p) (enumerate i ps))"
  by (induction ps arbitrary: i)
     (simp_all add: picturesSteps_Cons nav_pictureSteps, simp add: picturesSteps_def)

lemma nav_classSteps:
  "filter (\<lambda>e. isNav (fst e)) (classSteps pos k c) = navClass pos k c"
  by (simp add: classSteps_def navClass_def nav_picturesSteps isNav_simps)

lemma nav_classesSteps:
  "filter (\<lambda>e. isNav (fst e)) (classesSteps pos i cs) =
   concat (map (\<lambda>(k, c). navClass pos k c) (enumerate i cs))"
  by (induction cs arbitrary: i)
     (simp_all add: classesSteps_Cons nav_classSteps, simp add: classesSteps_def)

lemma nav_menuSteps:
  "filter (\<lambda>e. isNav (fst e)) (menuSteps i cs) =
   concat (map (\<lambda>(j, c). navCollection j c) (enumerate i cs))"
proof (induction cs arbitrary: i)
  case Nil
  show ?case by (simp add: menuSteps_def)
next
  case (Cons c cs)
  show ?case
    by (simp add: menuSteps_Cons collectionSteps_def navCollection_def nav_classesSteps Cons isNav_simps)
qed

lemma nav_allSteps:
  "filter (\<lambda>e. isNav (fst e)) (allSteps v env) = navigation (shownMenu v env)"
  by (simp add: allSteps_def navigation_def nav_menuSteps isNav_simps)

lemma extraction_steps:
  "\<exists>t. trace (snd (extraction v env s)) = trace s @ t \<and> prefix t (allSteps v env) \<and>
       ((\<exists>a. fst (extraction v env s) = Done a) \<longrightarrow> t = allSteps v env)"
  using emits_extraction[of v env] unfolding emits_def by blast

lemma main_exit0:
  "exitCode (main v env s) = Some 0 \<longleftrightarrow>
     existsSync s PERSISTENT_CONTEXT_DIR \<and> fst (extraction v env s) = Done ()"
  by (auto simp: main_def split: prod.splits outcome.splits)

lemma main_disk:
  "existsSync s PERSISTENT_CONTEXT_DIR \<Longrightarrow> disk (main v env s) = snd (extraction v env s)"
  by (auto simp: main_def split: prod.splits outcome.splits)

lemma runSteps_complete:
  assumes "exitCode (main v env s) = Some 0"
  shows "runSteps v env s = allSteps v env"
proof -
  from assms have a: "existsSync s PERSISTENT_CONTEXT_DIR" and d: "fst (extraction v env s) = Done ()"
    by (simp_all add: main_exit0)
  from extraction_steps[of v env s] d
  have "trace (snd (extraction v env s)) = trace s @ allSteps v env" by auto
  then show ?thesis by (simp add: runSteps_def main_disk[OF a])
qed

lemma leaves_navigation:
  "map snd (filter (\<lambda>e. fst e = Composite) (navigation menu)) = leaves menu"
  unfolding navigation_def navCollection_def navClass_def navPicture_def leaves_def
  by (simp add: filter_concat map_concat comp_def case_prod_unfold)


section \<open>A run on a page without faults completes\<close>

lemma succeeds_return: "succeeds (return a)"
  by (simp add: succeeds_def return_def)

lemma succeeds_mark: "succeeds (mark st)"
  by (simp add: succeeds_def mark_def)

lemma succeeds_await:
  assumes m: "succeeds m" and f: "\<And>a. succeeds (f a)"
  shows "succeeds (await m f)"
  unfolding succeeds_def
proof
  fix s
  from m obtain a s1 where ms: "m s = (Done a, s1)" unfolding succeeds_def by blast
  from f[of a] obtain b s2 where "f a s1 = (Done b, s2)" unfolding succeeds_def by blast
  with ms show "\<exists>b s'. await m f s = (Done b, s')" by (simp add: await_def)
qed

lemma succeeds_ui: "healthy env \<Longrightarrow> succeeds (ui env st)"
proof -
  assume "healthy env"
  then have "fault env st = None" unfolding healthy_def by blast
  then show ?thesis by (simp add: succeeds_def ui_def mark_def)
qed

lemma succeeds_extractText: "healthy env \<Longrightarrow> succeeds (extractTextWithFallback env st shown fb n)"
  unfolding extractTextWithFallback_def textContent_def
  by (intro succeeds_await succeeds_ui succeeds_return)

lemma succeeds_getAttribute: "healthy env \<Longrightarrow> succeeds (getAttribute env st a)"
  unfolding getAttribute_def
  by (intro succeeds_await succeeds_ui succeeds_return)

lemma succeeds_createFolder: "healthy env \<Longrightarrow> succeeds (createFolderStructure env a b c)"
  by (simp add: succeeds_def createFolderStructure_def Let_def healthy_def)

lemma succeeds_download: "healthy env \<Longrightarrow> succeeds (downloadImageToBuffer env u folder i)"
proof -
  assume "healthy env"
  then obtain b where b: "httpsGet env u = Piped b" unfolding healthy_def by blast
  show ?thesis
    by (simp add: succeeds_def downloadImageToBuffer_def downloadImage_def readFileSync_def
        unlinkSync_def await_def return_def b Let_def)
qed

lemma succeeds_filter: "healthy env \<Longrightarrow> succeeds (applyCSSFilterToImage v env u f)"
proof -
  assume "healthy env"
  then obtain b where b: "canvas env u f = Rendered b" unfolding healthy_def by blast
  show ?thesis by (simp add: succeeds_def applyCSSFilterToImage_def b)
qed

lemma succeeds_composite: "healthy env \<Longrightarrow> succeeds (createCompositeFromBuffers env folder n bufs)"
proof -
  assume h: "healthy env"
  show ?thesis
  proof (cases "length bufs = 1")
    case True
    then show ?thesis by (simp add: succeeds_def createCompositeFromBuffers_def)
  next
    case False
    from h obtain j where
      "sharp env (case bufs of [] \<Rightarrow> None | b # _ \<Rightarrow> Some b)
         (map (\<lambda>b. Overlay b 0 0 ''over'') (drop 1 bufs)) 100 = Inr j"
      unfolding healthy_def by blast
    with False show ?thesis by (simp add: succeeds_def createCompositeFromBuffers_def)
  qed
qed

lemma succeeds_processLayer:
  assumes h: "healthy env"
  shows "succeeds (processLayer v env pos folder i img acc)"
  unfolding processLayer_def Let_def
  by (intro succeeds_await succeeds_getAttribute[OF h])
     (auto split: option.splits
       intro!: succeeds_await succeeds_getAttribute[OF h] succeeds_download[OF h]
         succeeds_filter[OF h] succeeds_mark succeeds_return)

lemma succeeds_layerLoop:
  assumes h: "healthy env"
  shows "succeeds (layerLoop v env pos folder i imgs acc)"
proof (induction imgs arbitrary: i acc)
  case Nil
  show ?case by (simp add: succeeds_return)
next
  case (Cons img imgs)
  show ?case
    unfolding layerLoop.simps
    by (rule succeeds_await[OF succeeds_processLayer[OF h] Cons])
qed

lemma succeeds_downloadPreset:
  "healthy env \<Longrightarrow> succeeds (downloadPreset v env pos p folder n)"
  unfolding downloadPreset_def
  by (intro succeeds_await succeeds_ui succeeds_layerLoop succeeds_composite succeeds_mark)

lemma succeeds_presetLoop:
  assumes h: "healthy env"
  shows "succeeds (presetLoop v env pos folder i ps)"
proof (induction ps arbitrary: i)
  case Nil
  show ?case by (simp add: succeeds_return)
next
  case (Cons p ps)
  show ?case
    unfolding presetLoop.simps goBackToPresetSelection_def
    by (intro succeeds_await succeeds_ui[OF h] succeeds_downloadPreset[OF h] Cons)
qed

lemma succeeds_pictureLoop:
  assumes h: "healthy env"
  shows "succeeds (pictureLoop v env pos cn kn i ps)"
proof (induction ps arbitrary: i)
  case Nil
  show ?case by (simp add: succeeds_return)
next
  case (Cons p ps)
  show ?case
    unfolding pictureLoop.simps goBackToPictureSelection_def waitAndClick_def
    by (intro succeeds_await succeeds_ui[OF h] succeeds_extractText[OF h] succeeds_createFolder[OF h]
        succeeds_presetLoop[OF h] Cons)
qed

lemma succeeds_classLoop:
  assumes h: "healthy env"
  shows "succeeds (classLoop v env pos cn i cs)"
proof (induction cs arbitrary: i)
  case Nil
  show ?case by (simp add: succeeds_return)
next
  case (Cons c cs)
  show ?case
    unfolding classLoop.simps goBackToPictureClassSelection_def waitAndClick_def
    by (intro succeeds_await succeeds_ui[OF h] succeeds_extractText[OF h]
        succeeds_pictureLoop[OF h] Cons)
qed

lemma succeeds_collectionLoop:
  assumes h: "healthy env"
  shows "succeeds (collectionLoop v env i cs)"
proof (induction cs arbitrary: i)
  case Nil
  show ?case by (simp add: succeeds_return)
next
  case (Cons c cs)
  show ?case
    unfolding collectionLoop.simps
    by (intro succeeds_await succeeds_extractText[OF h] succeeds_classLoop[OF h] Cons)
qed

lemma succeeds_extraction:
  assumes h: "healthy env" and f: "frameOrdinal v < length (frames env)"
  shows "succeeds (extraction v env)"
proof -
  from h obtain i where i: "profileFrame (dialogFrames env) = Inr i"
    unfolding healthy_def by blast
  show ?thesis
    unfolding extraction_def findProfileFrame_Inr[OF i] menuFrame_shown[OF f] await_return
    by (intro succeeds_await succeeds_ui[OF h] succeeds_collectionLoop[OF h])
qed

lemma run_completes:
  assumes "healthy env" "frameOrdinal v < length (frames env)" "existsSync s PERSISTENT_CONTEXT_DIR"
  shows "exitCode (main v env s) = Some 0"
proof -
  from succeeds_extraction[OF assms(1,2)] obtain a s' where "extraction v env s = (Done a, s')"
    unfolding succeeds_def by blast
  with assms(3) show ?thesis by (simp add: main_def)
qed

lemma healthy_mockEnv: "healthy mockEnv"
  by (simp add: healthy_def mockEnv_def profileFrame_def)

section \<open>The order of the traversal\<close>

text \<open>
  C1: when a run completes, the outputs, cancel actions and back actions it records are
  exactly the depth-first walk of the menu the frame shows: per preset one output and
  one cancel, after the presets of a picture one click on back control 2, after the
  pictures of a class one click on back control 1, nothing after the last class of a
  collection, and no other back control. The outputs alone are the leaves of the menu
  in depth-first order.
\<close>

theorem traversal_depth_first:
  assumes "exitCode (main v env s) = Some 0"
  shows "filter (\<lambda>e. isNav (fst e)) (runSteps v env s) = navigation (shownMenu v env) \<and>
         map snd (filter (\<lambda>e. fst e = Composite) (runSteps v env s)) = leaves (shownMenu v env)"
proof -
  have r: "runSteps v env s = allSteps v env" by (rule runSteps_complete[OF assms])
  have n: "filter (\<lambda>e. isNav (fst e)) (allSteps v env) = navigation (shownMenu v env)"
    by (rule nav_allSteps)
  have "filter (\<lambda>e. fst e = Composite) (allSteps v env) =
        filter (\<lambda>e. fst e = Composite) (filter (\<lambda>e. isNav (fst e)) (allSteps v env))"
    by (simp add: isNav_def conj_commute cong: conj_cong)
  then have "map snd (filter (\<lambda>e. fst e = Composite) (allSteps v env)) = leaves (shownMenu v env)"
    by (simp only: n leaves_navigation)
  with r n show ?thesis by simp
qed

text \<open>
  The mock menu of two collections, one class, one picture and two presets each: the
  run completes and visits the four leaves in order.
\<close>

theorem traversal_depth_first_witness:
  "exitCode (main Typed mockEnv mockDisk) = Some 0 \<and>
   filter (\<lambda>e. isNav (fst e)) (runSteps Typed mockEnv mockDisk) =
     [(Composite, [0, 0, 0, 0]), (Cancel, [0, 0, 0, 0]),
      (Composite, [0, 0, 0, 1]), (Cancel, [0, 0, 0, 1]), (Back 2, [0, 0, 0]), (Back 1, [0, 0]),
      (Composite, [1, 0, 0, 0]), (Cancel, [1, 0, 0, 0]),
      (Composite, [1, 0, 0, 1]), (Cancel, [1, 0, 0, 1]), (Back 2, [1, 0, 0]), (Back 1, [1, 0])] \<and>
   map snd (filter (\<lambda>e. fst e = Composite) (runSteps Typed mockEnv mockDisk)) =
     [[0, 0, 0, 0], [0, 0, 0, 1], [1, 0, 0, 0], [1, 0, 0, 1]]"
proof -
  have h: "exitCode (main Typed mockEnv mockDisk) = Some 0"
    by (rule run_completes[OF healthy_mockEnv])
       (simp_all add: frameOrdinal_def mockEnv_def mockDisk_def existsSync_def)
  have n: "navigation (shownMenu Typed mockEnv) =
     [(Composite, [0, 0, 0, 0]), (Cancel, [0, 0, 0, 0]),
      (Composite, [0, 0, 0, 1]), (Cancel, [0, 0, 0, 1]), (Back 2, [0, 0, 0]), (Back 1, [0, 0]),
      (Composite, [1, 0, 0, 0]), (Cancel, [1, 0, 0, 0]),
      (Composite, [1, 0, 0, 1]), (Cancel, [1, 0, 0, 1]), (Back 2, [1, 0, 0]), (Back 1, [1, 0])]"
    by code_simp
  have l: "leaves (shownMenu Typed mockEnv) = [[0, 0, 0, 0], [0, 0, 0, 1], [1, 0, 0, 0], [1, 0, 0, 1]]"
    by code_simp
  show ?thesis
    using traversal_depth_first[OF h] h n l by simp
qed
section \<open>A run makes its calls up to the first failure\<close>

lemma completed_Nil: "completed [] = []"
  by (simp add: completed_def List.map_filter_simps)

lemma firstFailure_Nil: "firstFailure [] = None"
  by (simp add: firstFailure_def)

lemma completed_Cons:
  "completed (c # cs) =
     (case snd c of
        None \<Rightarrow> (case fst c of Some st \<Rightarrow> st # completed cs | None \<Rightarrow> completed cs)
      | Some f \<Rightarrow> [])"
  by (simp add: completed_def List.map_filter_simps split: option.splits)

lemma firstFailure_Cons:
  "firstFailure (c # cs) = (case snd c of None \<Rightarrow> firstFailure cs | Some f \<Rightarrow> Some f)"
  by (simp add: firstFailure_def split: option.splits)

lemma firstFailure_append:
  "firstFailure (xs @ ys) = (case firstFailure xs of None \<Rightarrow> firstFailure ys | Some f \<Rightarrow> Some f)"
  by (induction xs) (simp_all add: firstFailure_Nil firstFailure_Cons split: option.splits)

lemma completed_append:
  "completed (xs @ ys) =
     (case firstFailure xs of None \<Rightarrow> completed xs @ completed ys | Some f \<Rightarrow> completed xs)"
  by (induction xs)
     (simp_all add: firstFailure_Nil firstFailure_Cons completed_Nil completed_Cons split: option.splits)

lemma firstFailure_in_plan: "firstFailure xs = Some f \<Longrightarrow> \<exists>c\<in>set xs. snd c = Some f"
  by (induction xs) (auto simp: firstFailure_Nil firstFailure_Cons split: option.splits)

lemma firstFailure_None: "firstFailure xs = None \<longleftrightarrow> (\<forall>c\<in>set xs. snd c = None)"
  by (induction xs) (auto simp: firstFailure_Nil firstFailure_Cons split: option.splits)

lemma follows_await:
  assumes m: "follows m xs a" and f: "follows (f a) ys b"
  shows "follows (await m f) (xs @ ys) b"
  unfolding follows_def
proof (intro allI)
  fix s
  obtain r s1 where ms: "m s = (r, s1)" by (cases "m s")
  from m have "trace (snd (m s)) = trace s @ completed xs \<and> fst (m s) = ended (firstFailure xs) a"
    unfolding follows_def by blast
  with ms have t1: "trace s1 = trace s @ completed xs" and r: "r = ended (firstFailure xs) a"
    by simp_all
  show "trace (snd (await m f s)) = trace s @ completed (xs @ ys) \<and>
        fst (await m f s) = ended (firstFailure (xs @ ys)) b"
  proof (cases "firstFailure xs")
    case None
    with r have "r = Done a" by (simp add: ended_def)
    with ms have "await m f s = f a s1" by (simp add: await_def)
    moreover from f have
      "trace (snd (f a s1)) = trace s1 @ completed ys \<and> fst (f a s1) = ended (firstFailure ys) b"
      unfolding follows_def by blast
    ultimately show ?thesis using None t1 by (simp add: firstFailure_append completed_append)
  next
    case (Some fl)
    with ms r have "await m f s = (ended (Some fl) b, s1)"
      by (cases fl) (simp_all add: await_def ended_def)
    with Some t1 show ?thesis by (simp add: firstFailure_append completed_append)
  qed
qed

lemma follows_return: "follows (return a) [] a"
  by (simp add: follows_def return_def completed_Nil firstFailure_Nil ended_def)

lemma follows_raise: "follows (\<lambda>s. (Raise msg, s)) [(None, Some (Raises msg))] a"
  by (simp add: follows_def completed_Cons firstFailure_Cons ended_def)

lemma follows_ui: "follows (ui env st) [locator env st] ()"
  by (simp add: follows_def ui_def mark_def locator_def completed_Cons completed_Nil
      firstFailure_Cons firstFailure_Nil ended_def split: option.splits)

lemma follows_ui_then:
  "follows (f ()) ys b \<Longrightarrow> follows (await (ui env st) f) (locator env st # ys) b"
  using follows_await[OF follows_ui, of f ys b env st] by simp

lemma follows_extractText_then:
  assumes "follows (f (textOrFallback shown fb n)) ys b"
  shows "follows (await (extractTextWithFallback env st shown fb n) f) (locator env st # ys) b"
proof -
  have "await (extractTextWithFallback env st shown fb n) f =
        await (ui env st) (\<lambda>_. f (textOrFallback shown fb n))"
    by (simp add: extractTextWithFallback_def textContent_def await_assoc await_return)
  with follows_ui_then[of "\<lambda>_. f (textOrFallback shown fb n)" ys b env st] assms
  show ?thesis by simp
qed

lemma acquiredBuffers_one:
  "hasSrc img \<Longrightarrow>
   acquiredBuffers v env [img] = (case acquired v env img of Inr b \<Rightarrow> [b] | Inl _ \<Rightarrow> [])"
  by (simp add: acquiredBuffers_def)

lemma follows_raw:
  assumes u: "src img = Some u" "u \<noteq> []" and nf: "\<not> hasFilter img"
  shows "follows
           (await (downloadImageToBuffer env (maxResolution u) folder i) (\<lambda>b.
            await (mark st) (\<lambda>_. return (acc @ [b]))))
           [(Some st, failed (acquired v env img))] (acc @ acquiredBuffers v env [img])"
proof -
  from u have h: "hasSrc img" by (simp add: hasSrc_def)
  show ?thesis
    unfolding follows_def acquiredBuffers_one[OF h]
    using u nf
    by (cases "httpsGet env (maxResolution u)")
       (simp_all add: acquired_def failed_def downloadImageToBuffer_def downloadImage_def
          readFileSync_def unlinkSync_def await_def mark_def return_def Let_def
          completed_Cons completed_Nil firstFailure_Cons firstFailure_Nil ended_def)
qed

lemma follows_filtered:
  assumes u: "src img = Some u" "u \<noteq> []" and f: "filterInfo (style img) = Some f" "f \<noteq> []"
  shows "follows
           (await (applyCSSFilterToImage v env (maxResolution u) f) (\<lambda>b.
            await (mark st) (\<lambda>_. return (acc @ [b]))))
           [(Some st, failed (acquired v env img))] (acc @ acquiredBuffers v env [img])"
proof -
  from u have h: "hasSrc img" by (simp add: hasSrc_def)
  from f have hf: "hasFilter img" by (simp add: hasFilter_def)
  show ?thesis
    unfolding follows_def acquiredBuffers_one[OF h]
    using u f hf
    by (cases "canvas env (maxResolution u) f"; cases v)
       (simp_all add: acquired_def failed_def applyCSSFilterToImage_def
          await_def mark_def return_def Let_def
          completed_Cons completed_Nil firstFailure_Cons firstFailure_Nil ended_def)
qed

lemma follows_processLayer:
  "follows (processLayer v env pos folder i img acc) (layerPlan v env pos i img)
     (acc @ acquiredBuffers v env [img])"
proof (cases "hasSrc img")
  case False
  then have "acquiredBuffers v env [img] = []" by (simp add: acquiredBuffers_def)
  with False show ?thesis
    by (simp add: processLayer_skip layerPlan_def follows_ui_then follows_return)
next
  case True
  then obtain u where u: "src img = Some u" "u \<noteq> []"
    by (auto simp: hasSrc_def split: option.splits)
  show ?thesis
  proof (cases "hasFilter img")
    case False
    show ?thesis
      unfolding processLayer_raw[OF u False] layerPlan_def
      using True False
      by (simp only: if_True if_False) (intro follows_ui_then follows_raw[OF u False])
  next
    case hf: True
    then obtain f where f: "filterInfo (style img) = Some f" "f \<noteq> []"
      by (auto simp: hasFilter_def split: option.splits)
    show ?thesis
      unfolding processLayer_filtered[OF u f] layerPlan_def
      using True hf
      by (simp only: if_True) (intro follows_ui_then follows_filtered[OF u f])
  qed
qed

lemma layersPlan_Cons:
  "layersPlan v env pos i (img # imgs) = layerPlan v env pos i img @ layersPlan v env pos (Suc i) imgs"
  by (simp add: layersPlan_def)

lemma acquiredBuffers_Cons:
  "acquiredBuffers v env (img # imgs) = acquiredBuffers v env [img] @ acquiredBuffers v env imgs"
  by (simp add: acquiredBuffers_def)

lemma follows_layerLoop:
  "follows (layerLoop v env pos folder i imgs acc) (layersPlan v env pos i imgs)
     (acc @ acquiredBuffers v env imgs)"
proof (induction imgs arbitrary: i acc)
  case Nil
  show ?case by (simp add: layersPlan_def acquiredBuffers_def follows_return)
next
  case (Cons img imgs)
  from follows_await[of "processLayer v env pos folder i img acc" "layerPlan v env pos i img"
      "acc @ acquiredBuffers v env [img]" "layerLoop v env pos folder (Suc i) imgs"
      "layersPlan v env pos (Suc i) imgs" "(acc @ acquiredBuffers v env [img]) @ acquiredBuffers v env imgs",
      OF follows_processLayer Cons]
  have "follows (await (processLayer v env pos folder i img acc) (layerLoop v env pos folder (Suc i) imgs))
          (layerPlan v env pos i img @ layersPlan v env pos (Suc i) imgs)
          ((acc @ acquiredBuffers v env [img]) @ acquiredBuffers v env imgs)" .
  then show ?case
    by (simp add: layersPlan_Cons acquiredBuffers_Cons[of v env img imgs])
qed

lemma follows_composite:
  "follows (await (createCompositeFromBuffers env folder n bufs) (\<lambda>_. mark st))
     [(Some st, composed env bufs)] ()"
  by (simp add: follows_def createCompositeFromBuffers_def composed_def await_def mark_def
      completed_Cons completed_Nil firstFailure_Cons firstFailure_Nil ended_def split: sum.splits)

lemma follows_downloadPreset:
  "follows (downloadPreset v env pos p folder n)
     ([locator env (NextButton, pos), locator env (ImageContainer, pos)] @
      layersPlan v env pos 0 (layers p) @
      [(Some (Composite, pos), composed env (acquiredBuffers v env (layers p)))]) ()"
proof -
  from follows_layerLoop[of v env pos folder 0 "layers p" "[]"]
  have l: "follows (layerLoop v env pos folder 0 (layers p) []) (layersPlan v env pos 0 (layers p))
             (acquiredBuffers v env (layers p))" by simp
  show ?thesis
    unfolding downloadPreset_def
    by (simp only: append.simps)
       (intro follows_ui_then follows_await[OF l] follows_composite)
qed

lemma presetsPlan_Cons:
  "presetsPlan v env pos i (p # ps) =
     locator env (SelectPreset, pos @ [i]) #
     ([locator env (NextButton, pos @ [i]), locator env (ImageContainer, pos @ [i])] @
      layersPlan v env (pos @ [i]) 0 (layers p) @
      [(Some (Composite, pos @ [i]), composed env (acquiredBuffers v env (layers p)))]) @
     locator env (Cancel, pos @ [i]) # presetsPlan v env pos (Suc i) ps"
  by (simp add: presetsPlan_def presetPlan_def)

lemma follows_presetLoop:
  "follows (presetLoop v env pos folder i ps) (presetsPlan v env pos i ps) ()"
proof (induction ps arbitrary: i)
  case Nil
  show ?case by (simp add: presetsPlan_def follows_return)
next
  case (Cons p ps)
  show ?case
    unfolding presetLoop.simps waitAndClick_def goBackToPresetSelection_def presetsPlan_Cons
    by (intro follows_ui_then follows_await[OF follows_downloadPreset] Cons)
qed

lemma performs_of_follows: "follows m calls a \<Longrightarrow> performs env m calls a"
  by (simp add: follows_def performs_def)

lemma follows_of_performs:
  "performs env m calls a \<Longrightarrow> \<forall>p. mkdirSync env p = None \<Longrightarrow> follows m calls a"
  by (simp add: follows_def performs_def)

lemma completed_prefix: "prefix (completed xs) (completed (xs @ ys))"
  by (simp add: completed_append split: option.splits)

lemma performs_await:
  assumes m: "performs env m xs a" and f: "performs env (f a) ys b"
  shows "performs env (await m f) (xs @ ys) b"
  unfolding performs_def
proof (intro allI)
  fix s
  let ?goal = "(trace (snd (await m f s)) = trace s @ completed (xs @ ys) \<and>
        fst (await m f s) = ended (firstFailure (xs @ ys)) b) \<or>
       (\<exists>p msg t. mkdirSync env p = Some msg \<and> fst (await m f s) = Raise msg \<and>
          trace (snd (await m f s)) = trace s @ t \<and> prefix t (completed (xs @ ys)))"
  obtain r s1 where ms: "m s = (r, s1)" by (cases "m s")
  from m have
    "(trace (snd (m s)) = trace s @ completed xs \<and> fst (m s) = ended (firstFailure xs) a) \<or>
     (\<exists>p msg t. mkdirSync env p = Some msg \<and> fst (m s) = Raise msg \<and>
        trace (snd (m s)) = trace s @ t \<and> prefix t (completed xs))"
    unfolding performs_def by blast
  then show ?goal
  proof
    assume "trace (snd (m s)) = trace s @ completed xs \<and> fst (m s) = ended (firstFailure xs) a"
    with ms have t1: "trace s1 = trace s @ completed xs" and r: "r = ended (firstFailure xs) a"
      by simp_all
    show ?goal
    proof (cases "firstFailure xs")
      case None
      with r have "r = Done a" by (simp add: ended_def)
      with ms have e: "await m f s = f a s1" by (simp add: await_def)
      from f have
        "(trace (snd (f a s1)) = trace s1 @ completed ys \<and>
          fst (f a s1) = ended (firstFailure ys) b) \<or>
         (\<exists>p msg t. mkdirSync env p = Some msg \<and> fst (f a s1) = Raise msg \<and>
            trace (snd (f a s1)) = trace s1 @ t \<and> prefix t (completed ys))"
        unfolding performs_def by blast
      then show ?goal
      proof
        assume "trace (snd (f a s1)) = trace s1 @ completed ys \<and>
          fst (f a s1) = ended (firstFailure ys) b"
        with e None t1 show ?goal by (simp add: firstFailure_append completed_append)
      next
        assume "\<exists>p msg t. mkdirSync env p = Some msg \<and> fst (f a s1) = Raise msg \<and>
            trace (snd (f a s1)) = trace s1 @ t \<and> prefix t (completed ys)"
        then obtain p msg t where k: "mkdirSync env p = Some msg" "fst (f a s1) = Raise msg"
          "trace (snd (f a s1)) = trace s1 @ t" "prefix t (completed ys)" by blast
        from k(3) t1 e have "trace (snd (await m f s)) = trace s @ (completed xs @ t)" by simp
        moreover from k(4) None have "prefix (completed xs @ t) (completed (xs @ ys))"
          by (simp add: completed_append)
        ultimately show ?goal using k(1) k(2) e by metis
      qed
    next
      case (Some fl)
      with ms r have "await m f s = (ended (Some fl) b, s1)"
        by (cases fl) (simp_all add: await_def ended_def)
      with Some t1 show ?goal by (simp add: firstFailure_append completed_append)
    qed
  next
    assume "\<exists>p msg t. mkdirSync env p = Some msg \<and> fst (m s) = Raise msg \<and>
        trace (snd (m s)) = trace s @ t \<and> prefix t (completed xs)"
    then obtain p msg t where k: "mkdirSync env p = Some msg" "fst (m s) = Raise msg"
      "trace (snd (m s)) = trace s @ t" "prefix t (completed xs)" by blast
    from k(2) ms have "await m f s = (Raise msg, s1)" by (simp add: await_def)
    with k(3) ms have "fst (await m f s) = Raise msg" "trace (snd (await m f s)) = trace s @ t"
      by simp_all
    moreover from k(4) completed_prefix[of xs ys] have "prefix t (completed (xs @ ys))"
      by (rule prefix_order.trans)
    ultimately show ?goal using k(1) by blast
  qed
qed

lemma performs_return: "performs env (return a) [] a"
  by (rule performs_of_follows[OF follows_return])

lemma performs_raise: "performs env (\<lambda>s. (Raise msg, s)) [(None, Some (Raises msg))] a"
  by (rule performs_of_follows[OF follows_raise])

lemma performs_ui_then:
  "performs env (f ()) ys b \<Longrightarrow> performs env (await (ui env st) f) (locator env st # ys) b"
  using performs_await[of env "ui env st" "[locator env st]" "()" f ys b,
      OF performs_of_follows[OF follows_ui]]
  by simp

lemma performs_extractText_then:
  assumes "performs env (f (textOrFallback shown fb n)) ys b"
  shows "performs env (await (extractTextWithFallback env st shown fb n) f) (locator env st # ys) b"
proof -
  have "await (extractTextWithFallback env st shown fb n) f =
        await (ui env st) (\<lambda>_. f (textOrFallback shown fb n))"
    by (simp add: extractTextWithFallback_def textContent_def await_assoc await_return)
  with performs_ui_then[of env "\<lambda>_. f (textOrFallback shown fb n)" ys b st] assms
  show ?thesis by simp
qed

lemma performs_createFolder:
  "performs env (createFolderStructure env a b c) [] (pathJoin DOWNLOADS_DIR [a, b, c])"
  unfolding performs_def
proof (intro allI)
  fix s
  let ?folder = "pathJoin DOWNLOADS_DIR [a, b, c]"
  show "(trace (snd (createFolderStructure env a b c s)) = trace s @ completed [] \<and>
         fst (createFolderStructure env a b c s) = ended (firstFailure []) ?folder) \<or>
        (\<exists>p msg t. mkdirSync env p = Some msg \<and>
           fst (createFolderStructure env a b c s) = Raise msg \<and>
           trace (snd (createFolderStructure env a b c s)) = trace s @ t \<and> prefix t (completed []))"
  proof (cases "existsSync s ?folder \<or> mkdirSync env ?folder = None")
    case True
    then show ?thesis
      by (auto simp: createFolderStructure_def Let_def completed_Nil firstFailure_Nil ended_def)
  next
    case False
    then obtain msg where "\<not> existsSync s ?folder" "mkdirSync env ?folder = Some msg" by auto
    then have "mkdirSync env ?folder = Some msg \<and>
           fst (createFolderStructure env a b c s) = Raise msg \<and>
           trace (snd (createFolderStructure env a b c s)) = trace s @ [] \<and> prefix [] (completed [])"
      by (simp add: createFolderStructure_def Let_def)
    then show ?thesis by blast
  qed
qed

lemma performs_createFolder_then:
  assumes f: "performs env (f (pathJoin DOWNLOADS_DIR [a, b, c])) ys r"
  shows "performs env (await (createFolderStructure env a b c) f) ys r"
  using performs_await[of env "createFolderStructure env a b c" "[]" "pathJoin DOWNLOADS_DIR [a, b, c]"
      f ys r, OF performs_createFolder f]
  by simp

lemma performs_presetLoop_then:
  "performs env (f ()) ys b \<Longrightarrow>
   performs env (await (presetLoop v env pos folder i ps) f) (presetsPlan v env pos i ps @ ys) b"
  by (rule performs_await[OF performs_of_follows[OF follows_presetLoop]])

lemma picturesPlan_Cons:
  "picturesPlan v env pos i (p # ps) =
     locator env (OpenPicture, pos @ [i]) # locator env (PictureName, pos @ [i]) #
     locator env (PresetsHeading, pos @ [i]) #
     presetsPlan v env (pos @ [i]) 0 (presets p) @
     locator env (Back 2, pos @ [i]) # picturesPlan v env pos (Suc i) ps"
  by (simp add: picturesPlan_def picturePlan_def)

lemma performs_pictureLoop:
  "performs env (pictureLoop v env pos cn kn i ps) (picturesPlan v env pos i ps) ()"
proof (induction ps arbitrary: i)
  case Nil
  show ?case by (simp add: picturesPlan_def performs_return)
next
  case (Cons p ps)
  show ?case
    unfolding pictureLoop.simps waitAndClick_def goBackToPictureSelection_def picturesPlan_Cons
    by (intro performs_ui_then performs_extractText_then performs_createFolder_then
        performs_presetLoop_then Cons)
qed

lemma classesPlan_Cons:
  "classesPlan v env pos i (c # cs) =
     locator env (ClassName, pos @ [i]) # locator env (OpenClass, pos @ [i]) #
     picturesPlan v env (pos @ [i]) 0 (pictures c) @
     locator env (Back 1, pos @ [i]) # classesPlan v env pos (Suc i) cs"
  by (simp add: classesPlan_def classPlan_def)

lemma performs_classLoop:
  "performs env (classLoop v env pos cn i cs) (classesPlan v env pos i cs) ()"
proof (induction cs arbitrary: i)
  case Nil
  show ?case by (simp add: classesPlan_def performs_return)
next
  case (Cons c cs)
  show ?case
    unfolding classLoop.simps waitAndClick_def goBackToPictureClassSelection_def classesPlan_Cons
    by (intro performs_ui_then performs_extractText_then performs_await[OF performs_pictureLoop]
        Cons)
qed

lemma menuPlan_Cons:
  "menuPlan v env i (c # cs) =
     locator env (CollectionName, [i]) #
     classesPlan v env [i] 0 (classes c) @ menuPlan v env (Suc i) cs"
  by (simp add: menuPlan_def collectionPlan_def)

lemma performs_collectionLoop:
  "performs env (collectionLoop v env i cs) (menuPlan v env i cs) ()"
proof (induction cs arbitrary: i)
  case Nil
  show ?case by (simp add: menuPlan_def performs_return)
next
  case (Cons c cs)
  show ?case
    unfolding collectionLoop.simps menuPlan_Cons
    by (intro performs_extractText_then performs_await[OF performs_classLoop] Cons)
qed

lemma performs_extraction: "performs env (extraction v env) (plan v env) ()"
proof (cases "profileFrame (dialogFrames env)")
  case (Inl msg)
  show ?thesis
    unfolding extraction_def plan_def findProfileFrame_Inl[OF Inl] await_raise Inl
    by (simp only: append.simps sum.case) (intro performs_ui_then performs_raise)
next
  case (Inr i)
  show ?thesis
  proof (cases "frameOrdinal v < length (frames env)")
    case True
    show ?thesis
      unfolding extraction_def plan_def findProfileFrame_Inr[OF Inr] menuFrame_shown[OF True]
        await_return Inr
      using True
      by (simp only: append.simps if_True sum.case)
         (intro performs_ui_then performs_collectionLoop)
  next
    case False
    show ?thesis
      unfolding extraction_def plan_def findProfileFrame_Inr[OF Inr] menuFrame_undefined[OF False]
        await_return await_raise Inr
      using False
      by (simp only: append.simps if_False sum.case) (intro performs_ui_then performs_raise)
  qed
qed

lemma follows_extraction:
  "\<forall>p. mkdirSync env p = None \<Longrightarrow> follows (extraction v env) (plan v env) ()"
  by (rule follows_of_performs[OF performs_extraction])

lemma main_of_extraction:
  "existsSync s PERSISTENT_CONTEXT_DIR \<Longrightarrow>
   main v env s =
     (case fst (extraction v env s) of
        Done _ \<Rightarrow> \<lparr>exitCode = Some 0, reported = None, disk = snd (extraction v env s)\<rparr>
      | Raise msg \<Rightarrow> \<lparr>exitCode = Some 1, reported = Some msg, disk = snd (extraction v env s)\<rparr>
      | Stall \<Rightarrow> \<lparr>exitCode = None, reported = None, disk = snd (extraction v env s)\<rparr>)"
  by (auto simp: main_def split: prod.splits outcome.splits)

lemma extraction_ends:
  "\<forall>p. mkdirSync env p = None \<Longrightarrow>
   fst (extraction v env s) = ended (firstFailure (plan v env)) ()"
  using follows_extraction[of env v] unfolding follows_def by blast

lemma run_follows_plan:
  assumes se: "existsSync s PERSISTENT_CONTEXT_DIR" and mk: "\<forall>p. mkdirSync env p = None"
  shows "runSteps v env s = completed (plan v env)"
    and "firstFailure (plan v env) = None \<Longrightarrow>
         exitCode (main v env s) = Some 0 \<and> reported (main v env s) = None"
    and "firstFailure (plan v env) = Some (Raises msg) \<Longrightarrow>
         exitCode (main v env s) = Some 1 \<and> reported (main v env s) = Some msg"
    and "firstFailure (plan v env) = Some Stalls \<Longrightarrow>
         exitCode (main v env s) = None \<and> reported (main v env s) = None"
proof -
  from follows_extraction[OF mk, of v]
  have t: "trace (snd (extraction v env s)) = trace s @ completed (plan v env)"
    and e: "fst (extraction v env s) = ended (firstFailure (plan v env)) ()"
    unfolding follows_def by blast+
  from t show "runSteps v env s = completed (plan v env)"
    by (simp add: runSteps_def main_of_extraction[OF se] split: outcome.splits)
  show "firstFailure (plan v env) = None \<Longrightarrow>
        exitCode (main v env s) = Some 0 \<and> reported (main v env s) = None"
    using e by (simp add: main_of_extraction[OF se] ended_def)
  show "firstFailure (plan v env) = Some (Raises msg) \<Longrightarrow>
        exitCode (main v env s) = Some 1 \<and> reported (main v env s) = Some msg"
    using e by (simp add: main_of_extraction[OF se] ended_def)
  show "firstFailure (plan v env) = Some Stalls \<Longrightarrow>
        exitCode (main v env s) = None \<and> reported (main v env s) = None"
    using e by (simp add: main_of_extraction[OF se] ended_def)
qed

text \<open>No call of the typed file fails by never settling.\<close>

lemma locator_settles: "snd (locator env st) \<noteq> Some Stalls"
  by (cases "fault env st") (simp_all add: locator_def)

lemma composed_settles: "composed env bufs \<noteq> Some Stalls"
  by (simp add: composed_def split: sum.splits)

lemma layerPlan_typed: "c \<in> set (layerPlan Typed env pos i img) \<Longrightarrow> snd c \<noteq> Some Stalls"
  by (auto simp: layerPlan_def locator_settles failed_def acquired_def Let_def
      split: if_splits rendering.splits transfer.splits)

lemma layersPlan_typed: "c \<in> set (layersPlan Typed env pos i imgs) \<Longrightarrow> snd c \<noteq> Some Stalls"
  unfolding layersPlan_def using layerPlan_typed by fastforce

lemma presetPlan_typed: "c \<in> set (presetPlan Typed env pos r p) \<Longrightarrow> snd c \<noteq> Some Stalls"
  using layersPlan_typed[of c env "pos @ [r]" 0 "layers p"]
  by (auto simp: presetPlan_def locator_settles composed_settles)

lemma presetsPlan_typed: "c \<in> set (presetsPlan Typed env pos i ps) \<Longrightarrow> snd c \<noteq> Some Stalls"
  unfolding presetsPlan_def using presetPlan_typed by fastforce

lemma picturePlan_typed: "c \<in> set (picturePlan Typed env pos j p) \<Longrightarrow> snd c \<noteq> Some Stalls"
  using presetsPlan_typed[of c env "pos @ [j]" 0 "presets p"]
  by (auto simp: picturePlan_def locator_settles)

lemma picturesPlan_typed: "c \<in> set (picturesPlan Typed env pos i ps) \<Longrightarrow> snd c \<noteq> Some Stalls"
  unfolding picturesPlan_def using picturePlan_typed by fastforce

lemma classPlan_typed: "c \<in> set (classPlan Typed env pos k cl) \<Longrightarrow> snd c \<noteq> Some Stalls"
  using picturesPlan_typed[of c env "pos @ [k]" 0 "pictures cl"]
  by (auto simp: classPlan_def locator_settles)

lemma classesPlan_typed: "c \<in> set (classesPlan Typed env pos i cs) \<Longrightarrow> snd c \<noteq> Some Stalls"
  unfolding classesPlan_def using classPlan_typed by fastforce

lemma collectionPlan_typed: "c \<in> set (collectionPlan Typed env i co) \<Longrightarrow> snd c \<noteq> Some Stalls"
  using classesPlan_typed[of c env "[i]" 0 "classes co"]
  by (auto simp: collectionPlan_def locator_settles)

lemma menuPlan_typed: "c \<in> set (menuPlan Typed env i cs) \<Longrightarrow> snd c \<noteq> Some Stalls"
  unfolding menuPlan_def using collectionPlan_typed by fastforce

lemma plan_typed: "c \<in> set (plan Typed env) \<Longrightarrow> snd c \<noteq> Some Stalls"
  using menuPlan_typed[of c env 0 "frames env ! frameOrdinal Typed"]
  by (auto simp: plan_def locator_settles split: sum.splits if_splits)

section \<open>Errors and the exit status\<close>

lemma main_raise:
  "existsSync s PERSISTENT_CONTEXT_DIR \<Longrightarrow> fst (extraction v env s) = Raise msg \<Longrightarrow>
   exitCode (main v env s) = Some 1 \<and> reported (main v env s) = Some msg"
  by (auto simp: main_def split: prod.splits outcome.splits)

lemma main_no_session:
  "\<not> existsSync s PERSISTENT_CONTEXT_DIR \<Longrightarrow>
   exitCode (main v env s) = Some 1 \<and> reported (main v env s) = Some authMissing \<and>
   disk (main v env s) = s"
  by (simp add: main_def)

lemma session_mockDisk: "existsSync mockDisk PERSISTENT_CONTEXT_DIR"
  by (simp add: existsSync_def mockDisk_def)

lemma no_session_emptyDisk: "\<not> existsSync emptyDisk PERSISTENT_CONTEXT_DIR"
  by (simp add: existsSync_def emptyDisk_def)

lemma mkdir_stuckEnv: "\<forall>p. mkdirSync (stuckEnv menu) p = None"
  by (simp add: stuckEnv_def mockEnv_def)

lemma stuck_mockMenu_plan:
  "firstFailure (plan Typed (stuckEnv mockMenu)) = Some (Raises timeoutMessage)"
  by code_simp

lemma stuck_otherMenu_plan:
  "firstFailure (plan Typed (stuckEnv otherMenu)) = Some (Raises timeoutMessage)"
  by code_simp

lemma stuck_mockMenu:
  "fst (extraction Typed (stuckEnv mockMenu) mockDisk) = Raise timeoutMessage"
  by (simp add: extraction_ends[OF mkdir_stuckEnv] stuck_mockMenu_plan ended_def)

text \<open>
  C6, as stated: the reported error carries the collection and class names reached. It
  does not: the handler prints the message of the error and nothing else, so two runs
  that time out on the class button under different collection and class names report
  the same line.
\<close>

theorem report_without_context:
  "reported (main Typed (stuckEnv mockMenu) mockDisk) =
     reported (main Typed (stuckEnv otherMenu) mockDisk) \<and>
   reported (main Typed (stuckEnv mockMenu) mockDisk) = Some timeoutMessage \<and>
   textOrFallback (heading (hd mockMenu)) ''unknown_collection_1'' 30 = ''animals'' \<and>
   textOrFallback (heading (hd otherMenu)) ''unknown_collection_1'' 30 = ''plants''"
proof -
  have a: "reported (main Typed (stuckEnv mockMenu) mockDisk) = Some timeoutMessage"
    using run_follows_plan(3)[OF session_mockDisk mkdir_stuckEnv stuck_mockMenu_plan] by simp
  have b: "reported (main Typed (stuckEnv otherMenu) mockDisk) = Some timeoutMessage"
    using run_follows_plan(3)[OF session_mockDisk mkdir_stuckEnv stuck_otherMenu_plan] by simp
  have c: "textOrFallback (heading (hd mockMenu)) ''unknown_collection_1'' 30 = ''animals''"
    by code_simp
  have d: "textOrFallback (heading (hd otherMenu)) ''unknown_collection_1'' 30 = ''plants''"
    by code_simp
  show ?thesis using a b c d by simp
qed


text \<open>
  C6, amended: an error raised at a step of the traversal ends the run there, the
  process exits with status 1, and the line reported is the message of that error
  alone. The calls of the traversal are those of \<open>plan\<close>, each with the error it
  raises on the page, if any: the locator calls (waits, clicks, reads) at every level,
  the transfer or the rendering of a layer, the composite. Whenever the session folder
  exists, the steps of the run are those of the calls before the first failing one,
  each once and in order, so nothing is retried and nothing after the failing call is
  processed; the run exits 0 when no call fails, and with status 1 and the message of
  the first failing call when that call raises an error. No call of the typed file
  fails in another way; in the untyped file the rendering of a filter on a canvas
  without context never settles, and then the process does not exit. The one other end
  of a run is an error of \<open>mkdirSync\<close> at a picture, before any call of the plan has
  failed: the exit status is 1 and the line is the message of that error. So whenever
  some call of the plan fails, the run does not exit 0. (What \<open>contentFrame\<close> or
  \<open>count\<close> throws while the dialog's frame is searched is caught by the search and
  is not an error of a call: see \<open>profileFrame\<close>.)
\<close>

theorem run_aborts_on_error:
  assumes "existsSync s PERSISTENT_CONTEXT_DIR"
  shows "((runSteps v env s = completed (plan v env) \<and>
           (case firstFailure (plan v env) of
              None \<Rightarrow> exitCode (main v env s) = Some 0
            | Some (Raises msg) \<Rightarrow>
                exitCode (main v env s) = Some 1 \<and> reported (main v env s) = Some msg
            | Some Stalls \<Rightarrow> v = Untyped \<and> exitCode (main v env s) = None)) \<or>
          (\<exists>p msg. mkdirSync env p = Some msg \<and>
             prefix (runSteps v env s) (completed (plan v env)) \<and>
             exitCode (main v env s) = Some 1 \<and> reported (main v env s) = Some msg)) \<and>
         ((\<exists>c\<in>set (plan v env). snd c \<noteq> None) \<longrightarrow> exitCode (main v env s) \<noteq> Some 0)"
proof -
  let ?ff = "firstFailure (plan v env)"
  let ?A = "runSteps v env s = completed (plan v env) \<and>
           (case ?ff of
              None \<Rightarrow> exitCode (main v env s) = Some 0
            | Some (Raises msg) \<Rightarrow>
                exitCode (main v env s) = Some 1 \<and> reported (main v env s) = Some msg
            | Some Stalls \<Rightarrow> v = Untyped \<and> exitCode (main v env s) = None)"
  let ?B = "\<exists>p msg. mkdirSync env p = Some msg \<and>
             prefix (runSteps v env s) (completed (plan v env)) \<and>
             exitCode (main v env s) = Some 1 \<and> reported (main v env s) = Some msg"
  have st: "?ff = Some Stalls \<Longrightarrow> v = Untyped"
    using firstFailure_in_plan[of "plan v env" Stalls] plan_typed[of _ env] by (cases v) auto
  from performs_extraction[of env v] have
    "(trace (snd (extraction v env s)) = trace s @ completed (plan v env) \<and>
      fst (extraction v env s) = ended ?ff ()) \<or>
     (\<exists>p msg t. mkdirSync env p = Some msg \<and> fst (extraction v env s) = Raise msg \<and>
        trace (snd (extraction v env s)) = trace s @ t \<and> prefix t (completed (plan v env)))"
    unfolding performs_def by blast
  then have ab: "?A \<or> ?B"
  proof
    assume a: "trace (snd (extraction v env s)) = trace s @ completed (plan v env) \<and>
      fst (extraction v env s) = ended ?ff ()"
    then have r: "runSteps v env s = completed (plan v env)"
      by (simp add: runSteps_def main_of_extraction[OF assms] split: outcome.splits)
    have "case ?ff of
              None \<Rightarrow> exitCode (main v env s) = Some 0
            | Some (Raises msg) \<Rightarrow>
                exitCode (main v env s) = Some 1 \<and> reported (main v env s) = Some msg
            | Some Stalls \<Rightarrow> v = Untyped \<and> exitCode (main v env s) = None"
      using a st
      by (simp add: main_of_extraction[OF assms] ended_def split: option.splits failure.splits)
    with r show ?thesis by blast
  next
    assume "\<exists>p msg t. mkdirSync env p = Some msg \<and> fst (extraction v env s) = Raise msg \<and>
        trace (snd (extraction v env s)) = trace s @ t \<and> prefix t (completed (plan v env))"
    then obtain p msg t where k: "mkdirSync env p = Some msg" "fst (extraction v env s) = Raise msg"
      "trace (snd (extraction v env s)) = trace s @ t" "prefix t (completed (plan v env))" by blast
    from k(2) k(3) have "runSteps v env s = t"
      by (simp add: runSteps_def main_of_extraction[OF assms])
    with k(1) k(2) k(4) have ?B
      by (auto simp: main_of_extraction[OF assms])
    then show ?thesis by blast
  qed
  have c: "(\<exists>c\<in>set (plan v env). snd c \<noteq> None) \<longrightarrow> exitCode (main v env s) \<noteq> Some 0"
  proof
    assume "\<exists>c\<in>set (plan v env). snd c \<noteq> None"
    then have "?ff \<noteq> None" by (simp add: firstFailure_None)
    then obtain f where f: "?ff = Some f" by blast
    from ab show "exitCode (main v env s) \<noteq> Some 0"
    proof
      assume ?A
      with f show ?thesis by (cases f) auto
    next
      assume ?B
      then show ?thesis by auto
    qed
  qed
  from ab c show ?thesis by blast
qed


text \<open>
  The class button of the first class never appears: five steps, then exit 1 with the
  message of the timeout. Every transfer ends in an \<open>error\<close> event: the run stops at
  the first layer, no output is made. \<open>sharp\<close> refuses its input: the preset of one
  layer is written, the run stops at the preset of two.
\<close>

theorem run_aborts_on_error_witness:
  "runSteps Typed (stuckEnv mockMenu) mockDisk =
     [(Goto, []), (ProfilePhoto, []), (ChangeButton, [1]), (CollectionName, [0]), (ClassName, [0, 0])] \<and>
   exitCode (main Typed (stuckEnv mockMenu) mockDisk) = Some 1 \<and>
   reported (main Typed (stuckEnv mockMenu) mockDisk) = Some timeoutMessage \<and>
   last (runSteps Typed brokenLinkEnv mockDisk) = (LayerStyle, [0, 0, 0, 0, 0]) \<and>
   filter (\<lambda>e. fst e = Composite) (runSteps Typed brokenLinkEnv mockDisk) = [] \<and>
   exitCode (main Typed brokenLinkEnv mockDisk) = Some 1 \<and>
   reported (main Typed brokenLinkEnv mockDisk) = Some ''read ECONNRESET'' \<and>
   filter (\<lambda>e. fst e = Composite) (runSteps Typed unsupportedEnv mockDisk) =
     [(Composite, [0, 0, 0, 0])] \<and>
   exitCode (main Typed unsupportedEnv mockDisk) = Some 1 \<and>
   reported (main Typed unsupportedEnv mockDisk) =
     Some ''Input buffer contains unsupported image format''"
proof -
  have m: "\<forall>p. mkdirSync brokenLinkEnv p = None" "\<forall>p. mkdirSync unsupportedEnv p = None"
    by (simp_all add: brokenLinkEnv_def unsupportedEnv_def mockEnv_def)
  have c1: "completed (plan Typed (stuckEnv mockMenu)) =
     [(Goto, []), (ProfilePhoto, []), (ChangeButton, [1]), (CollectionName, [0]), (ClassName, [0, 0])]"
    by code_simp
  have c2: "last (completed (plan Typed brokenLinkEnv)) = (LayerStyle, [0, 0, 0, 0, 0])"
    "filter (\<lambda>e. fst e = Composite) (completed (plan Typed brokenLinkEnv)) = []"
    by code_simp+
  have f2: "firstFailure (plan Typed brokenLinkEnv) = Some (Raises ''read ECONNRESET'')"
    by code_simp
  have c3: "filter (\<lambda>e. fst e = Composite) (completed (plan Typed unsupportedEnv)) =
     [(Composite, [0, 0, 0, 0])]"
    by code_simp
  have f3: "firstFailure (plan Typed unsupportedEnv) =
     Some (Raises ''Input buffer contains unsupported image format'')"
    by code_simp
  show ?thesis
    using run_aborts_on_error[OF session_mockDisk, of Typed "stuckEnv mockMenu"]
      run_aborts_on_error[OF session_mockDisk, of Typed brokenLinkEnv]
      run_aborts_on_error[OF session_mockDisk, of Typed unsupportedEnv]
      mkdir_stuckEnv[of mockMenu] m
    by (simp add: stuck_mockMenu_plan c1 c2 f2 c3 f3)
qed


text \<open>
  On a disk where no folder can be made the run stops at the first picture, after its
  heading has appeared, with the message of \<open>mkdirSync\<close>.
\<close>

lemma mock_names:
  "textOrFallback (Some ''Animals'') ''unknown_collection_1'' 30 = ''animals''"
  "textOrFallback (Some ''Wild'') ''unknown_class_1'' 30 = ''wild''"
  "textOrFallback (Some ''Red Panda'') ''unknown_picture_1'' 50 = ''red_panda''"
  by code_simp+

lemma run_without_folders:
  "main Typed readOnlyEnv mockDisk =
     \<lparr>exitCode = Some 1, reported = Some ''EACCES: permission denied, mkdir'',
      disk = mockDisk\<lparr>trace :=
        [(Goto, []), (ProfilePhoto, []), (ChangeButton, [1]), (CollectionName, [0]),
         (ClassName, [0, 0]), (OpenClass, [0, 0]), (OpenPicture, [0, 0, 0]),
         (PictureName, [0, 0, 0]), (PresetsHeading, [0, 0, 0])]\<rparr>\<rparr>"
proof -
  have "extraction Typed readOnlyEnv mockDisk =
     (Raise ''EACCES: permission denied, mkdir'',
      mockDisk\<lparr>trace :=
        [(Goto, []), (ProfilePhoto, []), (ChangeButton, [1]), (CollectionName, [0]),
         (ClassName, [0, 0]), (OpenClass, [0, 0]), (OpenPicture, [0, 0, 0]),
         (PictureName, [0, 0, 0]), (PresetsHeading, [0, 0, 0])]\<rparr>)"
    by (simp add: extraction_def readOnlyEnv_def mockEnv_def mockDisk_def mockMenu_def
        mockPicture_def frameOrdinal_def await_def ui_def mark_def return_def
        extractTextWithFallback_def textContent_def waitAndClick_def findProfileFrame_def
        profileFrame_def menuFrame_def createFolderStructure_def existsSync_def pathJoin_def
        DOWNLOADS_DIR_def PERSISTENT_CONTEXT_DIR_def Let_def mock_names)
  then show ?thesis
    by (simp add: main_of_extraction[OF session_mockDisk])
qed

text \<open>
  C7, as stated: a missing session exits with a code distinct from the other failures.
  It does not: the status is 1, the status of every error of the traversal.
\<close>

theorem session_exit_code_not_distinct:
  "exitCode (main Typed mockEnv emptyDisk) = Some 1 \<and>
   exitCode (main Typed (stuckEnv mockMenu) mockDisk) = Some 1"
  using main_no_session[OF no_session_emptyDisk, of Typed mockEnv]
    main_raise[OF session_mockDisk stuck_mockMenu] by simp


text \<open>
  C7, amended: without the session folder the process exits with status 1 and leaves
  the state as it was (no step of the traversal is made); with it, a traversal that
  completes exits 0 and one that raises an error exits 1.
\<close>

theorem exit_discipline:
  "(\<not> existsSync s PERSISTENT_CONTEXT_DIR \<longrightarrow>
      exitCode (main v env s) = Some 1 \<and> disk (main v env s) = s) \<and>
   (existsSync s PERSISTENT_CONTEXT_DIR \<and> fst (extraction v env s) = Done () \<longrightarrow>
      exitCode (main v env s) = Some 0) \<and>
   (existsSync s PERSISTENT_CONTEXT_DIR \<and> fst (extraction v env s) = Raise msg \<longrightarrow>
      exitCode (main v env s) = Some 1)"
  using main_no_session[of s v env] main_exit0[of v env s] main_raise[of s v env msg] by blast


text \<open>No session, a complete run, and a run stopped by a timeout.\<close>

theorem exit_discipline_witness:
  "exitCode (main Typed mockEnv emptyDisk) = Some 1 \<and>
   disk (main Typed mockEnv emptyDisk) = emptyDisk \<and>
   exitCode (main Typed mockEnv mockDisk) = Some 0 \<and>
   exitCode (main Typed (stuckEnv mockMenu) mockDisk) = Some 1"
proof -
  have ok: "fst (extraction Typed mockEnv mockDisk) = Done ()"
    using run_completes[OF healthy_mockEnv, of Typed mockDisk] session_mockDisk
    by (simp add: main_exit0 frameOrdinal_def mockEnv_def)
  show ?thesis
    using exit_discipline[of emptyDisk Typed mockEnv]
      exit_discipline[of mockDisk Typed mockEnv]
      exit_discipline[of mockDisk Typed "stuckEnv mockMenu" timeoutMessage]
      no_session_emptyDisk session_mockDisk ok stuck_mockMenu
    by simp
qed

section \<open>The output of a preset\<close>

text \<open>
  What the program decides of the output: the file is \<open>finalPath\<close>, named after the
  last segment of the picture's folder and the 1-based ordinal of the preset; a single
  buffer is written as it is; of several, the first is handed to \<open>sharp\<close> as the
  base and the others, in order, as overlays at top 0, left 0 with blend \<open>over\<close>,
  with JPEG quality 100, and what \<open>sharp\<close> returns is written. The pixels that
  \<open>sharp\<close> blends and the bytes it encodes (the rest of C2) are computed outside
  the program.
\<close>

lemma output_name:
  "pictureName \<noteq> [] \<Longrightarrow>
   finalPath (pathJoin DOWNLOADS_DIR [collectionName, pictureClassName, pictureName]) n =
     pathJoin DOWNLOADS_DIR [collectionName, pictureClassName, pictureName] @
     [pictureName @ ''_'' @ showNat n @ ''.jpg'']"
  by (simp add: finalPath_def pathJoin_def basename_def)

lemma composite_single:
  "createCompositeFromBuffers env folder n [b] s =
     (Done (), s\<lparr>fs := (fs s)(finalPath folder n \<mapsto> b)\<rparr>)"
  by (simp add: createCompositeFromBuffers_def)

lemma composite_several:
  "createCompositeFromBuffers env folder n (b # c # bufs) s =
     (case sharp env (Some b) (Overlay c 0 0 ''over'' # map (\<lambda>x. Overlay x 0 0 ''over'') bufs) 100 of
        Inl msg \<Rightarrow> (Raise msg, s)
      | Inr jpeg \<Rightarrow> (Done (), s\<lparr>fs := (fs s)(finalPath folder n \<mapsto> jpeg)\<rparr>))"
  by (simp add: createCompositeFromBuffers_def)

section \<open>The layers of a preset\<close>

lemma await_DoneE:
  assumes "await m f s = (Done b, s')"
  obtains a s1 where "m s = (Done a, s1)" "f a s1 = (Done b, s')"
  using assms by (auto simp: await_def split: prod.splits outcome.splits)

lemma return_DoneE: "return a s = (Done b, s') \<Longrightarrow> b = a \<and> s' = s"
  by (simp add: return_def)

lemma processLayer_length:
  assumes "processLayer v env pos folder i img acc s = (Done acc', s')"
  shows "length acc' = length acc + (if hasSrc img then 1 else 0)"
proof (cases "hasSrc img")
  case False
  with assms show ?thesis
    by (auto simp: processLayer_skip elim!: await_DoneE dest!: return_DoneE)
next
  case True
  then obtain u where u: "src img = Some u" "u \<noteq> []"
    by (auto simp: hasSrc_def split: option.splits)
  show ?thesis
  proof (cases "hasFilter img")
    case False
    with assms u True show ?thesis
      by (auto simp: processLayer_raw elim!: await_DoneE dest!: return_DoneE)
  next
    case hf: True
    then obtain f where f: "filterInfo (style img) = Some f" "f \<noteq> []"
      by (auto simp: hasFilter_def split: option.splits)
    with assms u True show ?thesis
      by (auto simp: processLayer_filtered elim!: await_DoneE dest!: return_DoneE)
  qed
qed

lemma layerLoop_length:
  "layerLoop v env pos folder i imgs acc s = (Done bufs, s') \<Longrightarrow>
   length bufs = length acc + length (filter hasSrc imgs)"
proof (induction imgs arbitrary: i acc s)
  case Nil
  then show ?case by (simp add: return_def)
next
  case (Cons img imgs)
  from Cons.prems obtain acc' s1 where
    p: "processLayer v env pos folder i img acc s = (Done acc', s1)" and
    l: "layerLoop v env pos folder (Suc i) imgs acc' s1 = (Done bufs, s')"
    by (auto elim!: await_DoneE)
  from Cons.IH[OF l] processLayer_length[OF p] show ?case by simp
qed

lemma layerLoop_all_skipped:
  assumes "\<forall>img\<in>set imgs. \<not> hasSrc img" and "\<forall>j. fault env (LayerSrc, pos @ [j]) = None"
  shows "fst (layerLoop v env pos folder i imgs acc s) = Done acc \<and>
         fs (snd (layerLoop v env pos folder i imgs acc s)) = fs s"
  using assms(1)
proof (induction imgs arbitrary: i s)
  case Nil
  show ?case by (simp add: return_def)
next
  case (Cons img imgs)
  have f: "fault env (LayerSrc, pos @ [i]) = None" using assms(2) by blast
  have "layerLoop v env pos folder i (img # imgs) acc s =
        layerLoop v env pos folder (Suc i) imgs acc (s\<lparr>trace := trace s @ [(LayerSrc, pos @ [i])]\<rparr>)"
    using Cons.prems
    by (simp add: processLayer_skip await_def ui_def mark_def return_def f)
  with Cons.IH[of "Suc i" "s\<lparr>trace := trace s @ [(LayerSrc, pos @ [i])]\<rparr>"] Cons.prems
  show ?case by simp
qed

lemma downloadPreset_no_sources:
  assumes "\<forall>img\<in>set (layers p). \<not> hasSrc img" and "\<forall>st. fault env st = None"
  shows "fst (downloadPreset v env pos p folder n s) =
           (case sharp env None [] 100 of Inl msg \<Rightarrow> Raise msg | Inr jpeg \<Rightarrow> Done ())"
proof -
  have f: "\<forall>j. fault env (LayerSrc, pos @ [j]) = None" using assms(2) by blast
  define s2 where "s2 = s\<lparr>trace := trace s @ [(NextButton, pos), (ImageContainer, pos)]\<rparr>"
  obtain r s3 where l: "layerLoop v env pos folder 0 (layers p) [] s2 = (r, s3)"
    by (cases "layerLoop v env pos folder 0 (layers p) [] s2")
  from layerLoop_all_skipped[OF assms(1) f, of v folder 0 "[]" s2] l
  have r: "r = Done []" by simp
  show ?thesis
    using assms(2) l r
    by (simp add: downloadPreset_def await_def ui_def mark_def s2_def
        createCompositeFromBuffers_def split: sum.splits)
qed

text \<open>
  C10, as stated: the buffers handed to the composite are one per layer that has a
  \<open>src\<close>, the layers passed over being those whose \<open>src\<close> is \<open>null\<close>. The
  test of the code is \<open>if (src)\<close>, which the empty text fails as well: of two layers
  that both have a \<open>src\<close> attribute, one of them empty, one buffer is handed on.
\<close>

theorem layer_with_empty_src_is_skipped:
  "src emptyLayer \<noteq> None \<and> src rawLayer \<noteq> None \<and>
   fst (layerLoop Typed mockEnv [0, 0, 0, 0] [''images''] 0 [emptyLayer, rawLayer] [] mockDisk) =
     Done [[1, 2, 3]]"
proof -
  have "fst (layerLoop Typed mockEnv [0, 0, 0, 0] [''images''] 0 [emptyLayer, rawLayer] [] mockDisk) =
     Done [[1, 2, 3]]"
    by code_simp
  then show ?thesis by (simp add: emptyLayer_def rawLayer_def)
qed


text \<open>
  C10, amended: a layer whose \<open>src\<close> is \<open>null\<close> or the empty text (\<open>hasSrc\<close>
  is the test \<open>if (src)\<close> of the code) is passed over after the attribute is read:
  nothing is acquired and the buffers stay as they were. When the loop is fulfilled, it
  hands on one buffer per layer whose \<open>src\<close> is a text that is not empty, at most
  one per rendered layer, and it is fulfilled whenever none of its calls fails (the
  reads of the attributes and the acquisitions of the layers that are not passed
  over); when no layer has one and no locator call fails, it is
  fulfilled with no buffer at all, no file is touched, and the composite step is entered
  with the empty sequence (\<open>sharp\<close> is given \<open>undefined\<close> and no overlay).
\<close>

theorem layers_without_src_are_skipped:
  "(\<not> hasSrc img \<longrightarrow>
      processLayer v env pos folder i img acc =
        await (ui env (LayerSrc, pos @ [i])) (\<lambda>_. return acc)) \<and>
   (layerLoop v env pos folder 0 imgs [] s = (Done bufs, s') \<longrightarrow>
      length bufs = length (filter hasSrc imgs) \<and> length bufs \<le> length imgs) \<and>
   ((\<forall>img\<in>set imgs. \<not> hasSrc img) \<and> (\<forall>st. fault env st = None) \<longrightarrow>
      fst (layerLoop v env pos folder 0 imgs [] s) = Done [] \<and>
      fs (snd (layerLoop v env pos folder 0 imgs [] s)) = fs s \<and>
      fst (downloadPreset v env pos \<lparr>layers = imgs\<rparr> folder n s) =
        (case sharp env None [] 100 of Inl msg \<Rightarrow> Raise msg | Inr jpeg \<Rightarrow> Done ())) \<and>
   (firstFailure (layersPlan v env pos 0 imgs) = None \<longrightarrow>
      fst (layerLoop v env pos folder 0 imgs [] s) = Done (acquiredBuffers v env imgs) \<and>
      length (acquiredBuffers v env imgs) = length (filter hasSrc imgs))"
proof (intro conjI impI)
  assume "\<not> hasSrc img"
  then show "processLayer v env pos folder i img acc =
        await (ui env (LayerSrc, pos @ [i])) (\<lambda>_. return acc)"
    by (rule processLayer_skip)
next
  assume l: "layerLoop v env pos folder 0 imgs [] s = (Done bufs, s')"
  from layerLoop_length[OF l] show "length bufs = length (filter hasSrc imgs)" by simp
  then show "length bufs \<le> length imgs" by simp
next
  assume a: "(\<forall>img\<in>set imgs. \<not> hasSrc img) \<and> (\<forall>st. fault env st = None)"
  then have f: "\<forall>j. fault env (LayerSrc, pos @ [j]) = None" by blast
  from layerLoop_all_skipped[OF conjunct1[OF a] f]
  show "fst (layerLoop v env pos folder 0 imgs [] s) = Done []"
    and "fs (snd (layerLoop v env pos folder 0 imgs [] s)) = fs s" by simp_all
  from a have "\<forall>img\<in>set (layers \<lparr>layers = imgs\<rparr>). \<not> hasSrc img" by simp
  from downloadPreset_no_sources[OF this conjunct2[OF a]]
  show "fst (downloadPreset v env pos \<lparr>layers = imgs\<rparr> folder n s) =
        (case sharp env None [] 100 of Inl msg \<Rightarrow> Raise msg | Inr jpeg \<Rightarrow> Done ())" .
next
  assume n: "firstFailure (layersPlan v env pos 0 imgs) = None"
  from follows_layerLoop[of v env pos folder 0 imgs "[]"]
  have "fst (layerLoop v env pos folder 0 imgs [] s) =
        ended (firstFailure (layersPlan v env pos 0 imgs)) ([] @ acquiredBuffers v env imgs)"
    unfolding follows_def by blast
  with n show d: "fst (layerLoop v env pos folder 0 imgs [] s) = Done (acquiredBuffers v env imgs)"
    by (simp add: ended_def)
  then obtain s2 where "layerLoop v env pos folder 0 imgs [] s = (Done (acquiredBuffers v env imgs), s2)"
    by (cases "layerLoop v env pos folder 0 imgs [] s") simp
  from layerLoop_length[OF this]
  show "length (acquiredBuffers v env imgs) = length (filter hasSrc imgs)" by simp
qed

text \<open>A layer without \<open>src\<close> before a raw layer, and a preset with that layer alone.\<close>

theorem layers_without_src_are_skipped_witness:
  "processLayer Typed mockEnv [0, 0, 0, 0] [''images''] 0 bareLayer [] =
     await (ui mockEnv (LayerSrc, [0, 0, 0, 0, 0])) (\<lambda>_. return []) \<and>
   fst (layerLoop Typed mockEnv [0, 0, 0, 0] [''images''] 0 [bareLayer, rawLayer] [] mockDisk) =
     Done [[1, 2, 3]] \<and>
   length (filter hasSrc [bareLayer, rawLayer]) = 1 \<and>
   fst (layerLoop Typed mockEnv [0, 0, 0, 0] [''images''] 0 [bareLayer] [] mockDisk) = Done [] \<and>
   fst (downloadPreset Typed mockEnv [0, 0, 0, 0] \<lparr>layers = [bareLayer]\<rparr> [''images''] 1 mockDisk) =
     Done ()"
proof -
  have b: "\<not> hasSrc bareLayer" by (simp add: hasSrc_def bareLayer_def)
  have nb: "\<forall>img\<in>set [bareLayer]. \<not> hasSrc img" by (simp add: hasSrc_def bareLayer_def)
  have nf: "\<forall>st. fault mockEnv st = None" by (simp add: mockEnv_def)
  have sh: "sharp mockEnv None [] 100 = Inr [9]" by (simp add: mockEnv_def)
  have e: "fst (layerLoop Typed mockEnv [0, 0, 0, 0] [''images''] 0 [bareLayer, rawLayer] [] mockDisk) =
           Done [[1, 2, 3]]"
    by code_simp
  then obtain s' where l:
    "layerLoop Typed mockEnv [0, 0, 0, 0] [''images''] 0 [bareLayer, rawLayer] [] mockDisk =
       (Done [[1, 2, 3]], s')"
    by (cases "layerLoop Typed mockEnv [0, 0, 0, 0] [''images''] 0 [bareLayer, rawLayer] [] mockDisk") simp
  note t1 = layers_without_src_are_skipped[of bareLayer Typed mockEnv "[0, 0, 0, 0]" "[''images'']" 0 "[]"
      "[bareLayer, rawLayer]" mockDisk "[[1, 2, 3]]" s' 1]
  note t2 = layers_without_src_are_skipped[of bareLayer Typed mockEnv "[0, 0, 0, 0]" "[''images'']" 0 "[]"
      "[bareLayer]" mockDisk "[]" mockDisk 1]
  from t1 b l have "processLayer Typed mockEnv [0, 0, 0, 0] [''images''] 0 bareLayer [] =
      await (ui mockEnv (LayerSrc, [0, 0, 0, 0] @ [0])) (\<lambda>_. return [])"
    and "length [[1, 2, 3 :: 8 word]] = length (filter hasSrc [bareLayer, rawLayer])"
    by simp_all
  moreover from t2[THEN conjunct2, THEN conjunct2] nb nf sh
  have "fst (layerLoop Typed mockEnv [0, 0, 0, 0] [''images''] 0 [bareLayer] [] mockDisk) = Done []"
    and "fst (downloadPreset Typed mockEnv [0, 0, 0, 0] \<lparr>layers = [bareLayer]\<rparr> [''images''] 1 mockDisk) =
         Done ()"
    by simp_all
  ultimately show ?thesis using e by simp
qed

section \<open>The two acquisition paths and the size token\<close>











section \<open>The temporary file\<close>

text \<open>
  When \<open>https.get\<close> pipes the response or emits \<open>error\<close>, the temporary file is gone
  once \<open>downloadImageToBuffer\<close> has finished.
\<close>

lemma temp_file_removed:
  assumes "\<forall>msg. httpsGet env u \<noteq> Threw msg"
  shows "fs (snd (downloadImageToBuffer env u folder i s)) (tempPath folder i) = None"
  using assms
  by (cases "httpsGet env u")
     (simp_all add: downloadImageToBuffer_def downloadImage_def readFileSync_def unlinkSync_def
       await_def return_def Let_def)

text \<open>
  C8: the temporary file never remains. The code misses a case: \<open>https.get\<close> throws
  at once on a URL it cannot request (here a \<open>data:\<close> URL), after the write stream was
  opened and before the \<open>error\<close> listener is attached; the promise is rejected, no
  one unlinks the file, and the empty \<open>temp_0.jpg\<close> stays in the folder of the picture.
\<close>

theorem temp_file_left_behind:
  "downloadImageToBuffer throwingEnv ''data:image/png;base64,AAAA''
      [''images'', ''animals'', ''wild'', ''red_panda''] 0 mockDisk =
     (Raise invalidProtocol,
      mockDisk\<lparr>fs := [[''images'', ''animals'', ''wild'', ''red_panda'', ''temp_0.jpg''] \<mapsto> []]\<rparr>)"
  by (simp add: downloadImageToBuffer_def downloadImage_def await_def Let_def throwingEnv_def
      mockEnv_def mockDisk_def tempPath_def pathJoin_def)


section \<open>The two variants\<close>


























end
